theory Spec2Isabelle
  imports Complex_Main "HOL-Library.Sublist" "HOL-Library.Multiset"
begin

section \<open>JavaScript values\<close>

text \<open>
  The services work on loosely typed values (\<^verbatim>\<open>Record<string, any>\<close>): what the Metadata
  API client returns and what the XML parser produces. A value is a primitive, an array or
  a record. A record is the list of its own enumerable properties in the order
  \<^verbatim>\<open>Object.entries\<close> lists them. \<open>JNum\<close> holds the finite numbers, \<open>JNaN\<close> the
  not-a-number value.
\<close>

datatype jval =
    JUndefined
  | JNull
  | JBool bool
  | JNum rat
  | JNaN
  | JStr string
  | JArr "jval list"
  | JObj "(string \<times> jval) list"

text \<open>A thrown value, kept as the message the command reports for it.\<close>

type_synonym exn = string

text \<open>Truthiness, as tested by \<^verbatim>\<open>!v\<close>.\<close>

fun js_truthy :: "jval \<Rightarrow> bool" where
  "js_truthy JUndefined = False"
| "js_truthy JNull = False"
| "js_truthy (JBool b) = b"
| "js_truthy (JNum n) = (n \<noteq> 0)"
| "js_truthy JNaN = False"
| "js_truthy (JStr s) = (s \<noteq> [])"
| "js_truthy (JArr xs) = True"
| "js_truthy (JObj kvs) = True"

text \<open>
  Property read \<^verbatim>\<open>v[k]\<close> for the two names the code reads, \<^verbatim>\<open>fullName\<close> and
  \<^verbatim>\<open>Profile\<close>: a record yields its own property, every other value has neither name
  and yields \<^verbatim>\<open>undefined\<close>. (On \<^verbatim>\<open>null\<close> and \<^verbatim>\<open>undefined\<close> the read would throw; the
  code tests truthiness first and never reads from them.)
\<close>

fun js_get :: "jval \<Rightarrow> string \<Rightarrow> jval" where
  "js_get (JObj kvs) k = (case map_of kvs k of Some v \<Rightarrow> v | None \<Rightarrow> JUndefined)"
| "js_get v k = JUndefined"

text \<open>
  Own properties are ordered: array indices first (canonical decimal strings below
  \<open>2^32 - 1\<close>), ascending, then the other names in creation order.
\<close>

definition is_digit :: "char \<Rightarrow> bool" where
  "is_digit c = (48 \<le> (of_char c :: int) \<and> (of_char c :: int) \<le> 57)"

definition decimal_value :: "string \<Rightarrow> int" where
  "decimal_value s = fold (\<lambda>c n. 10 * n + ((of_char c :: int) - 48)) s 0"

definition array_index :: "string \<Rightarrow> int option" where
  "array_index s =
     (if s \<noteq> [] \<and> list_all is_digit s \<and> (s = ''0'' \<or> hd s \<noteq> CHR ''0'')
         \<and> decimal_value s < 4294967295
      then Some (decimal_value s) else None)"

fun insert_index :: "int \<Rightarrow> string \<times> jval \<Rightarrow> (string \<times> jval) list \<Rightarrow> (string \<times> jval) list" where
  "insert_index n e [] = [e]"
| "insert_index n e (p # rest) =
     (case array_index (fst p) of
        Some m \<Rightarrow> if m < n then p # insert_index n e rest else e # p # rest
      | None \<Rightarrow> e # p # rest)"

text \<open>
  \<open>js_define\<close> creates or overwrites an own property (what an object literal, a spread and
  a rest pattern do); \<open>js_put\<close> is the assignment \<^verbatim>\<open>obj[k] = v\<close> on a plain object, which
  for the name \<^verbatim>\<open>__proto__\<close> runs the inherited setter and creates no own property.
\<close>

definition js_define :: "(string \<times> jval) list \<Rightarrow> string \<Rightarrow> jval \<Rightarrow> (string \<times> jval) list" where
  "js_define obj k v =
     (if k \<in> fst ` set obj then map (\<lambda>p. if fst p = k then (k, v) else p) obj
      else case array_index k of
             None \<Rightarrow> obj @ [(k, v)]
           | Some n \<Rightarrow> insert_index n (k, v) obj)"

definition js_put :: "(string \<times> jval) list \<Rightarrow> string \<Rightarrow> jval \<Rightarrow> (string \<times> jval) list" where
  "js_put obj k v = (if k = ''__proto__'' then obj else js_define obj k v)"

text \<open>
  \<^verbatim>\<open>delete v[k]\<close>: removes the own property of a record; on any other value, for the
  three names the cleaner deletes, it does nothing.
\<close>

fun js_delete :: "jval \<Rightarrow> string \<Rightarrow> jval" where
  "js_delete (JObj kvs) k = JObj (filter (\<lambda>p. fst p \<noteq> k) kvs)"
| "js_delete v k = v"

text \<open>
  The own enumerable properties a spread or a rest pattern copies. Only records are
  copied by the code (\<open>retained_is_record\<close> below); arrays and strings, which would
  contribute their indices, are not modelled here.
\<close>

fun js_entries :: "jval \<Rightarrow> (string \<times> jval) list" where
  "js_entries (JObj kvs) = kvs"
| "js_entries v = []"

definition js_copy :: "(string \<times> jval) list \<Rightarrow> (string \<times> jval) list \<Rightarrow> (string \<times> jval) list" where
  "js_copy target source = fold (\<lambda>p obj. js_define obj (fst p) (snd p)) source target"

text \<open>Does a property name occur in a tree, at any depth?\<close>

function key_occurs :: "string \<Rightarrow> jval \<Rightarrow> bool" where
  "key_occurs k (JArr xs) = list_ex (key_occurs k) xs"
| "key_occurs k (JObj kvs) = list_ex (\<lambda>p. fst p = k \<or> key_occurs k (snd p)) kvs"
| "key_occurs k JUndefined = False"
| "key_occurs k JNull = False"
| "key_occurs k (JBool b) = False"
| "key_occurs k (JNum n) = False"
| "key_occurs k JNaN = False"
| "key_occurs k (JStr s) = False"
  by pat_completeness auto
termination
proof (relation "measure (\<lambda>(k, v). size v)")
  show "wf (measure (\<lambda>(k, v). size v))" by simp
next
  fix k :: string and xs :: "jval list" and x
  assume "x \<in> set xs"
  then have "size x < Suc (size_list size xs)" by (induction xs) auto
  then show "((k, x), (k, JArr xs)) \<in> measure (\<lambda>(k, v). size v)" by simp
next
  fix k :: string and kvs :: "(string \<times> jval) list" and p
  assume "p \<in> set kvs"
  then have "(fst p, snd p) \<in> set kvs" by simp
  then have "size (snd p) < Suc (size_list (size_prod (\<lambda>x. 0) size) kvs)"
    by (induction kvs) auto
  then show "((k, snd p), (k, JObj kvs)) \<in> measure (\<lambda>(k, v). size v)" by simp
qed

text \<open>
  A well-formed tree: every record in it is something a JavaScript object can be, with
  distinct property names in own-property order, and none of its names is
  \<^verbatim>\<open>__proto__\<close>.
\<close>

definition key_before :: "string \<Rightarrow> string \<Rightarrow> bool" where
  "key_before a b =
     (case array_index a of
        Some m \<Rightarrow> (case array_index b of Some n \<Rightarrow> m < n | None \<Rightarrow> True)
      | None \<Rightarrow> array_index b = None)"

definition own_order :: "(string \<times> jval) list \<Rightarrow> bool" where
  "own_order kvs = (distinct (map fst kvs) \<and> sorted_wrt key_before (map fst kvs))"

function wf_tree :: "jval \<Rightarrow> bool" where
  "wf_tree (JArr xs) = list_all wf_tree xs"
| "wf_tree (JObj kvs) =
     (own_order kvs \<and> ''__proto__'' \<notin> fst ` set kvs \<and> list_all (\<lambda>p. wf_tree (snd p)) kvs)"
| "wf_tree JUndefined = True"
| "wf_tree JNull = True"
| "wf_tree (JBool b) = True"
| "wf_tree (JNum n) = True"
| "wf_tree JNaN = True"
| "wf_tree (JStr s) = True"
  by pat_completeness auto
termination
proof (relation "measure size")
  show "wf (measure size)" by simp
next
  fix xs :: "jval list" and x
  assume "x \<in> set xs"
  then have "size x < Suc (size_list size xs)" by (induction xs) auto
  then show "(x, JArr xs) \<in> measure size" by simp
next
  fix kvs :: "(string \<times> jval) list" and p
  assume "p \<in> set kvs"
  then have "(fst p, snd p) \<in> set kvs" by simp
  then have "size (snd p) < Suc (size_list (size_prod (\<lambda>x. 0) size) kvs)"
    by (induction kvs) auto
  then show "(snd p, JObj kvs) \<in> measure size" by simp
qed

section \<open>ProfileMetadataService\<close>

definition BATCH_SIZE :: nat where
  "BATCH_SIZE = 10"

definition XML_DECLARATION :: string where
  \<open>XML_DECLARATION = ''<?xml version="1.0" encoding="UTF-8"?>\<newline>''\<close>

definition PROFILE_XMLNS :: string where
  "PROFILE_XMLNS = ''http://soap.sforce.com/2006/04/metadata''"

record RetrievedProfile =
  fullName :: jval
  xml :: string

subsection \<open>chunkArray\<close>

text \<open>
  \<^verbatim>\<open>for (let i = 0; i < arr.length; i += size) chunks.push(arr.slice(i, i + size))\<close>.
  With a chunk size of \<open>0\<close> the index never advances and the loop does not return: \<open>None\<close>.
\<close>

function chunkArray_loop :: "'a list \<Rightarrow> nat \<Rightarrow> nat \<Rightarrow> 'a list list \<Rightarrow> 'a list list option" where
  "chunkArray_loop arr sz i chunks =
     (if i < length arr then
        (if sz = 0 then None
         else chunkArray_loop arr sz (i + sz) (chunks @ [take sz (drop i arr)]))
      else Some chunks)"
  by pat_completeness auto
termination
  by (relation "measure (\<lambda>(arr, sz, i, chunks). length arr - i)") auto

definition chunkArray :: "'a list \<Rightarrow> nat \<Rightarrow> 'a list list option" where
  "chunkArray arr sz = chunkArray_loop arr sz 0 []"

subsection \<open>removeMetaKeys\<close>

function removeMetaKeys :: "jval \<Rightarrow> jval" where
  "removeMetaKeys (JArr xs) = JArr (map removeMetaKeys xs)"
| "removeMetaKeys (JObj kvs) =
     JObj (fold (\<lambda>(key, val) result.
                   if key = ''$'' \<or> key = ''type'' then result
                   else js_put result key (removeMetaKeys val)) kvs [])"
| "removeMetaKeys JUndefined = JUndefined"
| "removeMetaKeys JNull = JNull"
| "removeMetaKeys (JBool b) = JBool b"
| "removeMetaKeys (JNum n) = JNum n"
| "removeMetaKeys JNaN = JNaN"
| "removeMetaKeys (JStr s) = JStr s"
  by pat_completeness auto
termination
proof (relation "measure size")
  show "wf (measure size)" by simp
next
  fix xs :: "jval list" and x
  assume "x \<in> set xs"
  then have "size x < Suc (size_list size xs)" by (induction xs) auto
  then show "(x, JArr xs) \<in> measure size" by simp
next
  fix kvs :: "(string \<times> jval) list" and x :: "string \<times> jval" and xa key val
  assume "x \<in> set kvs" and "(key, val) = x"
  then have "(key, val) \<in> set kvs" by simp
  then have "size val < Suc (size_list (size_prod (\<lambda>x. 0) size) kvs)"
    by (induction kvs) auto
  then show "(val, JObj kvs) \<in> measure size" by simp
qed

text \<open>
  The same transformation in the words of the specification: every occurrence of the
  two reserved keys removed, recursing into sequence elements and nested records, all
  other entries kept in place.
\<close>

function strip_reserved :: "jval \<Rightarrow> jval" where
  "strip_reserved (JArr xs) = JArr (map strip_reserved xs)"
| "strip_reserved (JObj kvs) =
     JObj (map (\<lambda>p. (fst p, strip_reserved (snd p)))
             (filter (\<lambda>p. fst p \<noteq> ''$'' \<and> fst p \<noteq> ''type'') kvs))"
| "strip_reserved JUndefined = JUndefined"
| "strip_reserved JNull = JNull"
| "strip_reserved (JBool b) = JBool b"
| "strip_reserved (JNum n) = JNum n"
| "strip_reserved JNaN = JNaN"
| "strip_reserved (JStr s) = JStr s"
  by pat_completeness auto
termination
proof (relation "measure size")
  show "wf (measure size)" by simp
next
  fix xs :: "jval list" and x
  assume "x \<in> set xs"
  then have "size x < Suc (size_list size xs)" by (induction xs) auto
  then show "(x, JArr xs) \<in> measure size" by simp
next
  fix kvs :: "(string \<times> jval) list" and p
  assume "p \<in> set (filter (\<lambda>p. fst p \<noteq> ''$'' \<and> fst p \<noteq> ''type'') kvs)"
  then have "p \<in> set kvs" by simp
  then have "(fst p, snd p) \<in> set kvs" by simp
  then have "size (snd p) < Suc (size_list (size_prod (\<lambda>x. 0) size) kvs)"
    by (induction kvs) auto
  then show "(snd p, JObj kvs) \<in> measure size" by simp
qed

subsection \<open>buildProfileXml\<close>

text \<open>
  \<open>build\<close> is \<^verbatim>\<open>XMLBuilder.build\<close> of the XML library with the fixed builder options;
  the library is not part of the repository and stays a parameter. The value handed to
  it, \<^verbatim>\<open>wrapped\<close> in the source, is \<open>buildProfileXml_wrapped\<close>: the rest pattern
  \<^verbatim>\<open>const { fullName, ...profileBody } = cleaned\<close> copies every own property but
  \<^verbatim>\<open>fullName\<close>, and the object literal starts with \<^verbatim>\<open>'@_xmlns'\<close> and spreads
  \<^verbatim>\<open>profileBody\<close> after it.
\<close>

definition buildProfileXml_wrapped :: "jval \<Rightarrow> jval" where
  "buildProfileXml_wrapped profile =
     (let cleaned = removeMetaKeys profile;
          profileBody = js_copy [] (filter (\<lambda>p. fst p \<noteq> ''fullName'') (js_entries cleaned))
      in JObj [(''Profile'', JObj (js_copy [(''@_xmlns'', JStr PROFILE_XMLNS)] profileBody))])"

definition buildProfileXml :: "(jval \<Rightarrow> string) \<Rightarrow> jval \<Rightarrow> string" where
  "buildProfileXml build profile = XML_DECLARATION @ build (buildProfileXml_wrapped profile)"

text \<open>
  The body of the canonical record in the words of the specification: the record with the
  transport keys removed at every depth and without its identifier field. The builder
  renders an entry whose name starts with \<^verbatim>\<open>@_\<close> as an attribute of the element.
\<close>

definition body_entries :: "jval \<Rightarrow> (string \<times> jval) list" where
  "body_entries profile = filter (\<lambda>p. fst p \<noteq> ''fullName'') (js_entries (strip_reserved profile))"

definition is_attribute :: "string \<Rightarrow> bool" where
  "is_attribute k = (take 2 k = ''@_'')"

definition is_index :: "string \<times> jval \<Rightarrow> bool" where
  "is_index p = (array_index (fst p) \<noteq> None)"

subsection \<open>retrieveProfiles\<close>

text \<open>
  \<open>read\<close> is \<^verbatim>\<open>connection.metadata.read\<close>: given the record type name and a batch it
  answers with a value or rejects, and may change the state \<open>conn\<close> of the connection.
  A rejection ends \<open>retrieveProfiles\<close> at once.
\<close>

fun retrieveProfiles_items ::
  "(jval \<Rightarrow> string) \<Rightarrow> jval list \<Rightarrow> RetrievedProfile list \<Rightarrow> RetrievedProfile list" where
  "retrieveProfiles_items build [] results = results"
| "retrieveProfiles_items build (item # items) results =
     (if \<not> js_truthy item \<or> \<not> js_truthy (js_get item ''fullName'')
      then retrieveProfiles_items build items results
      else retrieveProfiles_items build items
             (results @ [\<lparr>fullName = js_get item ''fullName'',
                          xml = buildProfileXml build item\<rparr>]))"

fun array_or_single :: "jval \<Rightarrow> jval list" where
  "array_or_single (JArr xs) = xs"
| "array_or_single raw = [raw]"

fun retrieveProfiles_batches ::
  "(jval \<Rightarrow> string) \<Rightarrow> (string \<Rightarrow> string list \<Rightarrow> 'c \<Rightarrow> (exn + jval) \<times> 'c) \<Rightarrow>
   string list list \<Rightarrow> RetrievedProfile list \<Rightarrow> 'c \<Rightarrow> (exn + RetrievedProfile list) \<times> 'c" where
  "retrieveProfiles_batches build read [] results conn = (Inr results, conn)"
| "retrieveProfiles_batches build read (batch # batches) results conn =
     (case read ''Profile'' batch conn of
        (Inl e, conn') \<Rightarrow> (Inl e, conn')
      | (Inr raw, conn') \<Rightarrow>
          retrieveProfiles_batches build read batches
            (retrieveProfiles_items build (array_or_single raw) results) conn')"

definition retrieveProfiles ::
  "(jval \<Rightarrow> string) \<Rightarrow> (string \<Rightarrow> string list \<Rightarrow> 'c \<Rightarrow> (exn + jval) \<times> 'c) \<Rightarrow>
   'c \<Rightarrow> string list \<Rightarrow> ((exn + RetrievedProfile list) \<times> 'c) option" where
  "retrieveProfiles build read conn profileNames =
     (case chunkArray profileNames BATCH_SIZE of
        None \<Rightarrow> None
      | Some batches \<Rightarrow> Some (retrieveProfiles_batches build read batches [] conn))"

text \<open>
  The entries the inner loop keeps (the negation of its \<^verbatim>\<open>continue\<close> test), what it
  pushes for one of them, and an answer of the remote put into list shape.
\<close>

definition retained :: "jval \<Rightarrow> bool" where
  "retained item = (js_truthy item \<and> js_truthy (js_get item ''fullName''))"

definition built :: "(jval \<Rightarrow> string) \<Rightarrow> jval \<Rightarrow> RetrievedProfile" where
  "built build item = \<lparr>fullName = js_get item ''fullName'', xml = buildProfileXml build item\<rparr>"

definition as_array :: "jval \<Rightarrow> jval" where
  "as_array raw = (case raw of JArr xs \<Rightarrow> JArr xs | _ \<Rightarrow> JArr [raw])"

text \<open>
  To count remote calls, a connection can be wrapped so that its state also records,
  in order, the arguments of every call made on it.
\<close>

definition logging ::
  "(string \<Rightarrow> string list \<Rightarrow> 'c \<Rightarrow> (exn + jval) \<times> 'c) \<Rightarrow>
   string \<Rightarrow> string list \<Rightarrow> 'c \<times> (string \<times> string list) list \<Rightarrow>
   (exn + jval) \<times> ('c \<times> (string \<times> string list) list)" where
  "logging read t ids st =
     (case read t ids (fst st) of (r, conn') \<Rightarrow> (r, (conn', snd st @ [(t, ids)])))"

section \<open>ProfileCleaner\<close>

record CleanOptions =
  removeLoginIpRanges :: bool
  removeUserLicense :: bool
  removeLoginHours :: bool

definition DEFAULT_CLEAN_OPTIONS :: CleanOptions where
  "DEFAULT_CLEAN_OPTIONS =
     \<lparr>removeLoginIpRanges = True, removeUserLicense = True, removeLoginHours = True\<rparr>"

text \<open>The three conditional \<^verbatim>\<open>delete\<close> statements of \<^verbatim>\<open>cleanProfileXml\<close>.\<close>

definition cleanProfileXml_delete :: "CleanOptions \<Rightarrow> jval \<Rightarrow> jval" where
  "cleanProfileXml_delete options profile =
     (let p1 = (if removeLoginIpRanges options then js_delete profile ''loginIpRanges'' else profile);
          p2 = (if removeUserLicense options then js_delete p1 ''userLicense'' else p1);
          p3 = (if removeLoginHours options then js_delete p2 ''loginHours'' else p2)
      in p3)"

text \<open>
  \<open>parse\<close> is \<^verbatim>\<open>XMLParser.parse\<close> with the fixed parser options: it returns a record (its
  entries here) or throws; \<open>build\<close> is the builder, as above.
\<close>

definition cleanProfileXml ::
  "(string \<Rightarrow> exn + (string \<times> jval) list) \<Rightarrow> (jval \<Rightarrow> string) \<Rightarrow>
   string \<Rightarrow> CleanOptions \<Rightarrow> exn + string" where
  \<open>cleanProfileXml parse build xml_in options =
     (case parse xml_in of
        Inl e \<Rightarrow> Inl e
      | Inr parsed \<Rightarrow>
          (let profile = js_get (JObj parsed) ''Profile'' in
           if \<not> js_truthy profile then Inr xml_in
           else Inr (''<?xml version="1.0" encoding="UTF-8"?>\<newline>''
                       @ build (JObj [(''Profile'', cleanProfileXml_delete options profile)]))))\<close>

text \<open>The value \<^verbatim>\<open>parsed['Profile']\<close>.\<close>

definition parsed_profile :: "(string \<times> jval) list \<Rightarrow> jval" where
  "parsed_profile parsed = js_get (JObj parsed) ''Profile''"

text \<open>
  Modelled from the spec: the XML parser and builder belong to a library that is not in
  the repository. The specification asks of the serializer that its rendering be
  reversible: parsing the emitted text reconstructs the tree that was rendered.
  \<open>reads_back parse build p\<close> says this of the document with root record \<open>p\<close>.
\<close>

definition reads_back ::
  "(string \<Rightarrow> exn + (string \<times> jval) list) \<Rightarrow> (jval \<Rightarrow> string) \<Rightarrow> jval \<Rightarrow> bool" where
  "reads_back parse build p =
     (case parse (XML_DECLARATION @ build (JObj [(''Profile'', p)])) of
        Inl e \<Rightarrow> False
      | Inr parsed \<Rightarrow> js_get (JObj parsed) ''Profile'' = p)"

section \<open>FormatConverter\<close>

text \<open>
  \<open>mkdirSync\<close> and \<open>writeFileSync\<close> act on a file system state and may throw;
  \<open>path_join\<close> is \<^verbatim>\<open>path.join\<close>. The template literal turns the profile name into
  text: a string stands for itself, any other value is converted by \<open>to_string\<close>.
\<close>

fun js_template :: "(jval \<Rightarrow> string) \<Rightarrow> jval \<Rightarrow> string" where
  "js_template to_string (JStr s) = s"
| "js_template to_string v = to_string v"

definition writeProfileToSourceFormat ::
  "(jval \<Rightarrow> string) \<Rightarrow> (string \<Rightarrow> 'fs \<Rightarrow> exn option \<times> 'fs) \<Rightarrow>
   (string \<Rightarrow> string \<Rightarrow> 'fs \<Rightarrow> exn option \<times> 'fs) \<Rightarrow> (string \<Rightarrow> string \<Rightarrow> string) \<Rightarrow>
   jval \<Rightarrow> string \<Rightarrow> string \<Rightarrow> 'fs \<Rightarrow> (exn + string) \<times> 'fs" where
  "writeProfileToSourceFormat to_string mkdirSync writeFileSync path_join
       profileName xml_in outputDir fs =
     (case mkdirSync outputDir fs of
        (Some e, fs1) \<Rightarrow> (Inl e, fs1)
      | (None, fs1) \<Rightarrow>
          (let fileName = js_template to_string profileName @ ''.profile-meta.xml'';
               filePath = path_join outputDir fileName
           in case writeFileSync filePath xml_in fs1 of
                (Some e, fs2) \<Rightarrow> (Inl e, fs2)
              | (None, fs2) \<Rightarrow> (Inr filePath, fs2)))"

section \<open>The command\<close>

record ProfileRetrieveResult =
  name :: jval
  success :: bool
  filePath :: "string option"
  error :: "string option"

record ProfileRetrieveFullResult =
  profiles :: "ProfileRetrieveResult list"
  totalRequested :: nat
  totalSuccess :: nat
  totalFailed :: nat

text \<open>
  Step 2 to 4 of \<^verbatim>\<open>run\<close>: one pass over the retrieved profiles; whatever the cleaner or
  the writer throws is caught and becomes the failure outcome of that profile.
\<close>

fun run_process ::
  "(string \<Rightarrow> exn + (string \<times> jval) list) \<Rightarrow> (jval \<Rightarrow> string) \<Rightarrow>
   (jval \<Rightarrow> string) \<Rightarrow> (string \<Rightarrow> 'fs \<Rightarrow> exn option \<times> 'fs) \<Rightarrow>
   (string \<Rightarrow> string \<Rightarrow> 'fs \<Rightarrow> exn option \<times> 'fs) \<Rightarrow> (string \<Rightarrow> string \<Rightarrow> string) \<Rightarrow>
   bool \<Rightarrow> string \<Rightarrow> RetrievedProfile list \<Rightarrow> ProfileRetrieveResult list \<Rightarrow> 'fs \<Rightarrow>
   ProfileRetrieveResult list \<times> 'fs" where
  "run_process parse build to_string mkdirSync writeFileSync path_join shouldClean outputDir
       [] results fs = (results, fs)"
| "run_process parse build to_string mkdirSync writeFileSync path_join shouldClean outputDir
       (profile # rest) results fs =
     (case (if shouldClean then cleanProfileXml parse build (xml profile) DEFAULT_CLEAN_OPTIONS
            else Inr (xml profile)) of
        Inl errMsg \<Rightarrow>
          run_process parse build to_string mkdirSync writeFileSync path_join shouldClean outputDir
            rest
            (results @ [\<lparr>name = fullName profile, success = False,
                         filePath = None, error = Some errMsg\<rparr>]) fs
      | Inr x \<Rightarrow>
          (case writeProfileToSourceFormat to_string mkdirSync writeFileSync path_join
                  (fullName profile) x outputDir fs of
             (Inl errMsg, fs') \<Rightarrow>
               run_process parse build to_string mkdirSync writeFileSync path_join shouldClean
                 outputDir rest
                 (results @ [\<lparr>name = fullName profile, success = False,
                              filePath = None, error = Some errMsg\<rparr>]) fs'
           | (Inr path, fs') \<Rightarrow>
               run_process parse build to_string mkdirSync writeFileSync path_join shouldClean
                 outputDir rest
                 (results @ [\<lparr>name = fullName profile, success = True,
                              filePath = Some path, error = None\<rparr>]) fs'))"

text \<open>Step 5: the requested names that are not among the retrieved ones.\<close>

fun run_report_missing ::
  "jval list \<Rightarrow> string list \<Rightarrow> ProfileRetrieveResult list \<Rightarrow> ProfileRetrieveResult list" where
  "run_report_missing retrievedNames [] results = results"
| "run_report_missing retrievedNames (n # ns) results =
     (if JStr n \<notin> set retrievedNames
      then run_report_missing retrievedNames ns
             (results @ [\<lparr>name = JStr n, success = False, filePath = None,
                error = Some ''Profile not found in org or not returned by readMetadata()''\<rparr>])
      else run_report_missing retrievedNames ns results)"

text \<open>
  \<^verbatim>\<open>run\<close> from the call of \<^verbatim>\<open>retrieveProfiles\<close> on, for the resolved list of names;
  logging and the results table are left out.
\<close>

definition run ::
  "(string \<Rightarrow> exn + (string \<times> jval) list) \<Rightarrow> (jval \<Rightarrow> string) \<Rightarrow>
   (jval \<Rightarrow> string) \<Rightarrow> (string \<Rightarrow> string list \<Rightarrow> 'c \<Rightarrow> (exn + jval) \<times> 'c) \<Rightarrow>
   (string \<Rightarrow> 'fs \<Rightarrow> exn option \<times> 'fs) \<Rightarrow>
   (string \<Rightarrow> string \<Rightarrow> 'fs \<Rightarrow> exn option \<times> 'fs) \<Rightarrow> (string \<Rightarrow> string \<Rightarrow> string) \<Rightarrow>
   string list \<Rightarrow> bool \<Rightarrow> string \<Rightarrow> 'c \<Rightarrow> 'fs \<Rightarrow>
   ((exn + ProfileRetrieveFullResult) \<times> 'c \<times> 'fs) option" where
  "run parse build to_string read mkdirSync writeFileSync path_join
       profileNames shouldClean outputDir conn fs =
     (case retrieveProfiles build read conn profileNames of
        None \<Rightarrow> None
      | Some (Inl e, conn') \<Rightarrow> Some (Inl e, conn', fs)
      | Some (Inr retrieved, conn') \<Rightarrow>
          (case run_process parse build to_string mkdirSync writeFileSync path_join
                  shouldClean outputDir retrieved [] fs of
             (results, fs') \<Rightarrow>
               (let results' = run_report_missing (map fullName retrieved) profileNames results
                in Some (Inr \<lparr>profiles = results',
                               totalRequested = length profileNames,
                               totalSuccess = length (filter success results'),
                               totalFailed = length (filter (\<lambda>r. \<not> success r) results')\<rparr>,
                         conn', fs'))))"

text \<open>
  An outcome is a success with a file path or a failure with a reason; \<open>not_found\<close> is
  the failure reported for a requested name that was not retrieved.
\<close>

definition outcome_shape :: "ProfileRetrieveResult \<Rightarrow> bool" where
  "outcome_shape r =
     (if success r then filePath r \<noteq> None \<and> error r = None
      else filePath r = None \<and> error r \<noteq> None)"

definition not_found :: "string \<Rightarrow> ProfileRetrieveResult" where
  "not_found n =
     \<lparr>name = JStr n, success = False, filePath = None,
      error = Some ''Profile not found in org or not returned by readMetadata()''\<rparr>"

section \<open>Examples\<close>

subsection \<open>Example data\<close>

definition names13 :: "string list" where
  "names13 = [''P0'', ''P1'', ''P2'', ''P3'', ''P4'', ''P5'', ''P6'', ''P7'', ''P8'', ''P9'',
              ''P10'', ''P11'', ''P12'']"

definition meta_example :: jval where
  "meta_example =
     JObj [(''fullName'', JStr ''Admin''),
           (''$'', JObj [(''xsi:type'', JStr ''Profile'')]),
           (''type'', JStr ''Profile''),
           (''custom'', JBool False),
           (''userPermissions'',
              JArr [JObj [(''enabled'', JBool True), (''name'', JStr ''ViewSetup''),
                          (''$'', JObj [(''foo'', JStr ''bar'')])],
                    JObj [(''enabled'', JBool False), (''name'', JStr ''ModifyAllData''),
                          (''type'', JStr ''PermThing'')]])]"

definition admin_record :: jval where
  "admin_record = JObj [(''fullName'', JStr ''Admin''), (''custom'', JBool False)]"

definition sample_profile :: "(string \<times> jval) list" where
  "sample_profile =
     [(''custom'', JBool False),
      (''userLicense'', JStr ''Salesforce''),
      (''fieldPermissions'',
         JObj [(''editable'', JBool True), (''field'', JStr ''Account.AnnualRevenue''),
               (''readable'', JBool True)]),
      (''loginIpRanges'',
         JObj [(''endAddress'', JStr ''255.255.255.255''), (''startAddress'', JStr ''0.0.0.0'')]),
      (''loginHours'', JObj [(''mondayStart'', JNum 480), (''mondayEnd'', JNum 1080)]),
      (''@_xmlns'', JStr ''http://soap.sforce.com/2006/04/metadata'')]"

definition sample_cleaned :: "(string \<times> jval) list" where
  "sample_cleaned =
     [(''custom'', JBool False),
      (''fieldPermissions'',
         JObj [(''editable'', JBool True), (''field'', JStr ''Account.AnnualRevenue''),
               (''readable'', JBool True)]),
      (''@_xmlns'', JStr ''http://soap.sforce.com/2006/04/metadata'')]"

text \<open>A parser and a builder on two documents, named by short texts.\<close>

definition sample_parse :: "string \<Rightarrow> exn + (string \<times> jval) list" where
  "sample_parse x =
     (if x = ''raw'' then Inr [(''?xml'', JObj []), (''Profile'', JObj sample_profile)]
      else if x = XML_DECLARATION @ ''cleaned''
      then Inr [(''?xml'', JObj []), (''Profile'', JObj sample_cleaned)]
      else Inr [(''Something'', JStr ''test'')])"

definition sample_build :: "jval \<Rightarrow> string" where
  "sample_build v =
     (if v = JObj [(''Profile'', JObj sample_cleaned)] then ''cleaned'' else ''other'')"

definition nested_example :: jval where
  "nested_example =
     JObj [(''fullName'', JStr ''Admin''),
           (''custom'', JBool False),
           (''layoutAssignments'',
              JObj [(''layout'', JStr ''Account-Account Layout''),
                    (''fullName'', JStr ''Account'')])]"

subsection \<open>Example environment\<close>

text \<open>
  A remote that gives the same answer to every call, a builder and a text conversion
  that ignore their argument, a file system that accepts every write and records its
  path, and a path join with a slash.
\<close>

definition record_named :: "string \<Rightarrow> jval" where
  "record_named n = JObj [(''fullName'', JStr n), (''custom'', JBool False)]"

definition constant_remote :: "jval \<Rightarrow> string \<Rightarrow> string list \<Rightarrow> unit \<Rightarrow> (exn + jval) \<times> unit" where
  "constant_remote answer t ids c = (Inr answer, c)"

definition plain_build :: "jval \<Rightarrow> string" where
  "plain_build v = ''<Profile/>''"

definition no_text :: "jval \<Rightarrow> string" where
  "no_text v = []"

definition mkdir_ok :: "string \<Rightarrow> string list \<Rightarrow> exn option \<times> string list" where
  "mkdir_ok dir fs = (None, fs)"

definition write_ok :: "string \<Rightarrow> string \<Rightarrow> string list \<Rightarrow> exn option \<times> string list" where
  "write_ok path content fs = (None, fs @ [path])"

definition slash_join :: "string \<Rightarrow> string \<Rightarrow> string" where
  "slash_join dir file = dir @ ''/'' @ file"

section \<open>Batching\<close>

declare chunkArray_loop.simps [simp del]


lemma chunkArray_loop_result:
  "0 < sz \<Longrightarrow>
   \<exists>cs. chunkArray_loop arr sz i chunks = Some (chunks @ cs)
      \<and> concat cs = drop i arr
      \<and> (\<forall>c \<in> set cs. c \<noteq> [] \<and> length c \<le> sz)
      \<and> length cs = (length arr - i + sz - 1) div sz"
proof (induction arr sz i chunks rule: chunkArray_loop.induct)
  case (1 arr sz i chunks)
  show ?case
  proof (cases "i < length arr")
    case False
    then have "chunkArray_loop arr sz i chunks = Some (chunks @ [])"
      by (simp add: chunkArray_loop.simps)
    moreover from False \<open>0 < sz\<close> have "(length arr - i + sz - 1) div sz = 0" by simp
    ultimately show ?thesis using False by auto
  next
    case True
    let ?c = "take sz (drop i arr)"
    from "1.IH" [OF True] \<open>0 < sz\<close>
    obtain cs where cs: "chunkArray_loop arr sz (i + sz) (chunks @ [?c]) = Some ((chunks @ [?c]) @ cs)"
      and cat: "concat cs = drop (i + sz) arr"
      and each: "\<forall>c \<in> set cs. c \<noteq> [] \<and> length c \<le> sz"
      and len: "length cs = (length arr - (i + sz) + sz - 1) div sz"
      by auto
    have run: "chunkArray_loop arr sz i chunks = Some (chunks @ (?c # cs))"
      using True \<open>0 < sz\<close> cs by (subst chunkArray_loop.simps) simp
    have "take sz (drop i arr) @ drop sz (drop i arr) = drop i arr"
      by (rule append_take_drop_id)
    moreover have "drop sz (drop i arr) = drop (i + sz) arr"
      by (simp add: add.commute)
    ultimately have cat': "concat (?c # cs) = drop i arr"
      using cat by (simp del: drop_drop append_take_drop_id)
    have c_ok: "?c \<noteq> [] \<and> length ?c \<le> sz"
      using True \<open>0 < sz\<close> by auto
    have len': "length (?c # cs) = (length arr - i + sz - 1) div sz"
    proof (cases "sz \<le> length arr - i")
      case True
      then have "length arr - (i + sz) + sz - 1 = length arr - i - 1" using \<open>0 < sz\<close> by arith
      moreover have "(length arr - i - 1) div sz + 1 = (length arr - i - 1 + sz) div sz"
        using \<open>0 < sz\<close> by simp
      moreover have "length arr - i - 1 + sz = length arr - i + sz - 1"
        using \<open>i < length arr\<close> by arith
      ultimately show ?thesis using len by simp
    next
      case False
      then have a: "length arr - (i + sz) + sz - 1 = sz - 1" by arith
      define d where "d = length arr - i - 1"
      have e: "length arr - i + sz - 1 = sz + d"
        unfolding d_def using \<open>i < length arr\<close> by arith
      have "d < sz" unfolding d_def using False by arith
      then have "(sz + d) div sz = 1" by simp
      then have "(length arr - i + sz - 1) div sz = 1" by (simp only: e)
      moreover have "length cs = 0" using a len \<open>0 < sz\<close> by simp
      ultimately show ?thesis by simp
    qed
    show ?thesis using run cat' c_ok each len' by (intro exI[of _ "?c # cs"]) simp
  qed
qed

lemma ceil_div10: "\<lceil>real n / 10\<rceil> = int ((n + 9) div 10)"
proof -
  have "\<lceil>real n / 10\<rceil> = \<lceil>real_of_int (int n) / real_of_int 10\<rceil>" by simp
  also have "\<dots> = - (- int n div 10)" by (rule ceiling_divide_eq_div)
  also have "\<dots> = int ((n + 9) div 10)" by (simp add: zdiv_int)
  finally show ?thesis .
qed

lemma logging_apply:
  "logging read t ids (conn, calls) =
     (case read t ids conn of (r, conn') \<Rightarrow> (r, (conn', calls @ [(t, ids)])))"
  by (simp add: logging_def)

lemma logging_batches:
  "\<exists>calls'.
     retrieveProfiles_batches build (logging read) batches results (conn, calls) =
       (fst (retrieveProfiles_batches build read batches results conn),
        (snd (retrieveProfiles_batches build read batches results conn), calls @ calls'))
   \<and> prefix calls' (map (Pair ''Profile'') batches)
   \<and> ((\<exists>res. fst (retrieveProfiles_batches build read batches results conn) = Inr res)
        \<longrightarrow> calls' = map (Pair ''Profile'') batches)"
proof (induction batches arbitrary: results conn calls)
  case Nil
  show ?case by simp
next
  case (Cons batch batches)
  obtain r conn1 where rd: "read ''Profile'' batch conn = (r, conn1)"
    by (cases "read ''Profile'' batch conn")
  show ?case
  proof (cases r)
    case (Inl e)
    with rd show ?thesis
      by (intro exI[of _ "[(''Profile'', batch)]"]) (simp add: logging_apply)
  next
    case (Inr raw)
    let ?results = "retrieveProfiles_items build (array_or_single raw) results"
    from Cons.IH [of ?results conn1 "calls @ [(''Profile'', batch)]"]
    obtain calls' where
      step: "retrieveProfiles_batches build (logging read) batches ?results
               (conn1, calls @ [(''Profile'', batch)]) =
             (fst (retrieveProfiles_batches build read batches ?results conn1),
              (snd (retrieveProfiles_batches build read batches ?results conn1),
               (calls @ [(''Profile'', batch)]) @ calls'))"
      and pre: "prefix calls' (map (Pair ''Profile'') batches)"
      and full: "(\<exists>res. fst (retrieveProfiles_batches build read batches ?results conn1) = Inr res)
                 \<longrightarrow> calls' = map (Pair ''Profile'') batches"
      by blast
    show ?thesis
      using rd Inr step pre full
      by (intro exI[of _ "(''Profile'', batch) # calls'"]) (simp add: logging_apply)
  qed
qed

text \<open>
  Claim C1. For a list of \<open>N\<close> identifiers, \<open>chunkArray\<close> with the batch size returns
  \<open>\<lceil>N / 10\<rceil>\<close> chunks of at most 10 identifiers each, whose concatenation in
  order is the list. \<open>retrieveProfiles\<close> returns, and the calls it makes on the connection
  are a prefix of one call per chunk, in chunk order: all of them unless a call is rejected.
  For the empty list it makes no call and returns the empty list.
\<close>

theorem C1_chunks_and_calls:
  "\<exists>chunks.
     chunkArray profileNames BATCH_SIZE = Some chunks
   \<and> int (length chunks) = \<lceil>real (length profileNames) / 10\<rceil>
   \<and> (\<forall>c \<in> set chunks. length c \<le> 10)
   \<and> concat chunks = profileNames
   \<and> (\<exists>r conn' calls.
        retrieveProfiles build read conn profileNames = Some (r, conn')
      \<and> retrieveProfiles build (logging read) (conn, []) profileNames = Some (r, (conn', calls))
      \<and> prefix calls (map (Pair ''Profile'') chunks)
      \<and> ((\<exists>res. r = Inr res) \<longrightarrow> calls = map (Pair ''Profile'') chunks)
      \<and> (profileNames = [] \<longrightarrow> r = Inr [] \<and> calls = []))"
proof -
  from chunkArray_loop_result [of 10 profileNames 0 "[]"]
  obtain chunks where ch: "chunkArray profileNames BATCH_SIZE = Some chunks"
    and cat: "concat chunks = profileNames"
    and each: "\<forall>c \<in> set chunks. c \<noteq> [] \<and> length c \<le> 10"
    and len: "length chunks = (length profileNames + 9) div 10"
    by (auto simp: chunkArray_def BATCH_SIZE_def)
  let ?R = "retrieveProfiles_batches build read chunks [] conn"
  from logging_batches [of build read chunks "[]" conn "[]"]
  obtain calls where
    lg: "retrieveProfiles_batches build (logging read) chunks [] (conn, []) =
           (fst ?R, (snd ?R, calls))"
    and pre: "prefix calls (map (Pair ''Profile'') chunks)"
    and full: "(\<exists>res. fst ?R = Inr res) \<longrightarrow> calls = map (Pair ''Profile'') chunks"
    by auto
  have empty: "profileNames = [] \<longrightarrow> fst ?R = Inr [] \<and> calls = []"
  proof
    assume "profileNames = []"
    with len have "chunks = []" by simp
    with pre show "fst ?R = Inr [] \<and> calls = []" by simp
  qed
  have "retrieveProfiles build read conn profileNames = Some (fst ?R, snd ?R)"
    using ch by (simp add: retrieveProfiles_def)
  moreover have "retrieveProfiles build (logging read) (conn, []) profileNames =
                   Some (fst ?R, (snd ?R, calls))"
    using ch lg by (simp add: retrieveProfiles_def)
  moreover have "int (length chunks) = \<lceil>real (length profileNames) / 10\<rceil>"
    using len by (simp add: ceil_div10)
  ultimately show ?thesis
    using ch cat each pre full empty by blast
qed

text \<open>Thirteen names: a chunk of 10, then one of 3, and two calls of these sizes.\<close>

theorem C1_chunks_and_calls_witness:
  "map length (the (chunkArray names13 BATCH_SIZE)) = [10, 3]
   \<and> concat (the (chunkArray names13 BATCH_SIZE)) = names13
   \<and> map (length \<circ> snd) (snd (snd (the (retrieveProfiles (\<lambda>v. []) (logging (\<lambda>t ids c. (Inr (JArr []), c)))
                 ((), []) names13)))) = [10, 3]"
  using C1_chunks_and_calls [of names13 "\<lambda>v. []" "\<lambda>t ids c. (Inr (JArr []), c)" "()"]
  by (simp add: names13_def chunkArray_def BATCH_SIZE_def chunkArray_loop.simps
        retrieveProfiles_def logging_apply)

section \<open>The transport-key normalizer\<close>

lemma insert_index_append:
  "\<forall>p \<in> set obj. \<exists>m. array_index (fst p) = Some m \<and> m < n \<Longrightarrow>
   insert_index n e obj = obj @ [e]"
  by (induction obj) auto

lemma key_before_index:
  "key_before a b \<Longrightarrow> array_index b = Some n \<Longrightarrow> \<exists>m. array_index a = Some m \<and> m < n"
  by (auto simp: key_before_def split: option.splits)

lemma js_define_append:
  assumes "k \<notin> fst ` set obj" and "\<forall>p \<in> set obj. key_before (fst p) k"
  shows "js_define obj k v = obj @ [(k, v)]"
proof (cases "array_index k")
  case None
  with assms(1) show ?thesis by (simp add: js_define_def)
next
  case (Some n)
  with assms(2) have "\<forall>p \<in> set obj. \<exists>m. array_index (fst p) = Some m \<and> m < n"
    by (blast dest: key_before_index)
  then have "insert_index n (k, v) obj = obj @ [(k, v)]" by (rule insert_index_append)
  with Some assms(1) show ?thesis by (simp add: js_define_def)
qed

lemma fold_js_put:
  assumes "distinct (map fst acc @ map fst kvs)"
    and "\<forall>p \<in> set acc. \<forall>q \<in> set kvs. key_before (fst p) (fst q)"
    and "sorted_wrt key_before (map fst kvs)"
    and "''__proto__'' \<notin> fst ` set kvs"
  shows "fold (\<lambda>(key, val) result.
                 if key = ''$'' \<or> key = ''type'' then result
                 else js_put result key (g val)) kvs acc
         = acc @ map (\<lambda>p. (fst p, g (snd p)))
                   (filter (\<lambda>p. fst p \<noteq> ''$'' \<and> fst p \<noteq> ''type'') kvs)"
  using assms
proof (induction kvs arbitrary: acc)
  case Nil
  show ?case by simp
next
  case (Cons kv kvs)
  obtain k v where kv: "kv = (k, v)" by (cases kv)
  show ?case
  proof (cases "k = ''$'' \<or> k = ''type''")
    case True
    have "fold (\<lambda>(key, val) result.
                 if key = ''$'' \<or> key = ''type'' then result
                 else js_put result key (g val)) kvs acc
         = acc @ map (\<lambda>p. (fst p, g (snd p)))
                   (filter (\<lambda>p. fst p \<noteq> ''$'' \<and> fst p \<noteq> ''type'') kvs)"
      using Cons.prems by (intro Cons.IH) auto
    with True kv show ?thesis by auto
  next
    case False
    have put: "js_put acc k (g v) = acc @ [(k, g v)]"
    proof -
      have "k \<noteq> ''__proto__''" using Cons.prems(4) kv by auto
      moreover have "k \<notin> fst ` set acc" using Cons.prems(1) kv by auto
      moreover have "\<forall>p \<in> set acc. key_before (fst p) k" using Cons.prems(2) kv by auto
      ultimately show ?thesis by (simp add: js_put_def js_define_append)
    qed
    have "fold (\<lambda>(key, val) result.
                 if key = ''$'' \<or> key = ''type'' then result
                 else js_put result key (g val)) kvs (acc @ [(k, g v)])
         = (acc @ [(k, g v)]) @ map (\<lambda>p. (fst p, g (snd p)))
                   (filter (\<lambda>p. fst p \<noteq> ''$'' \<and> fst p \<noteq> ''type'') kvs)"
      using Cons.prems kv by (intro Cons.IH) auto
    with False kv put show ?thesis by auto
  qed
qed

lemma removeMetaKeys_record:
  assumes "own_order kvs" and "''__proto__'' \<notin> fst ` set kvs"
  shows "removeMetaKeys (JObj kvs) =
           JObj (map (\<lambda>p. (fst p, removeMetaKeys (snd p)))
                   (filter (\<lambda>p. fst p \<noteq> ''$'' \<and> fst p \<noteq> ''type'') kvs))"
  using assms fold_js_put [of "[]" kvs removeMetaKeys]
  by (simp add: own_order_def)

lemma removeMetaKeys_strip: "wf_tree t \<Longrightarrow> removeMetaKeys t = strip_reserved t"
proof (induction t rule: strip_reserved.induct)
  case (1 xs)
  then show ?case by (simp add: list_all_iff)
next
  case (2 kvs)
  let ?keep = "filter (\<lambda>p. fst p \<noteq> ''$'' \<and> fst p \<noteq> ''type'') kvs"
  from "2.prems" have oo: "own_order kvs" and np: "''__proto__'' \<notin> fst ` set kvs"
    and sub: "\<forall>p \<in> set kvs. wf_tree (snd p)"
    by (simp_all add: list_all_iff)
  have "\<And>p. p \<in> set ?keep \<Longrightarrow> removeMetaKeys (snd p) = strip_reserved (snd p)"
    using "2.IH" sub by simp
  then have "map (\<lambda>p. (fst p, removeMetaKeys (snd p))) ?keep
           = map (\<lambda>p. (fst p, strip_reserved (snd p))) ?keep"
    by (intro map_cong) simp_all
  moreover have "removeMetaKeys (JObj kvs) = JObj (map (\<lambda>p. (fst p, removeMetaKeys (snd p))) ?keep)"
    using oo np by (rule removeMetaKeys_record)
  ultimately show ?case by (simp del: removeMetaKeys.simps)
qed simp_all

lemma strip_reserved_no_key:
  "k = ''$'' \<or> k = ''type'' \<Longrightarrow> \<not> key_occurs k (strip_reserved t)"
  by (induction t rule: strip_reserved.induct) (auto simp: list_ex_iff)

lemma strip_reserved_noop:
  "\<not> key_occurs ''$'' t \<Longrightarrow> \<not> key_occurs ''type'' t \<Longrightarrow> strip_reserved t = t"
proof (induction t rule: strip_reserved.induct)
  case (1 xs)
  then show ?case by (auto simp: list_ex_iff intro: map_idI)
next
  case (2 kvs)
  from "2.prems" have keep: "filter (\<lambda>p. fst p \<noteq> ''$'' \<and> fst p \<noteq> ''type'') kvs = kvs"
    by (auto simp: list_ex_iff intro!: filter_True)
  have "map (\<lambda>p. (fst p, strip_reserved (snd p))) kvs = kvs"
    using "2.IH" "2.prems" keep by (intro map_idI) (auto simp: list_ex_iff)
  with keep show ?case by simp
qed simp_all

lemma sorted_wrt_filter_keys:
  "sorted_wrt R (map fst kvs) \<Longrightarrow> sorted_wrt R (map fst (filter P kvs))"
  by (induction kvs) auto

lemma own_order_strip:
  "own_order kvs \<Longrightarrow>
   own_order (map (\<lambda>p. (fst p, f (snd p))) (filter P kvs))"
  by (simp add: own_order_def comp_def distinct_map_filter sorted_wrt_filter_keys)

lemma keys_strip:
  "fst ` set (map (\<lambda>p. (fst p, f (snd p))) (filter P kvs)) \<subseteq> fst ` set kvs"
  by force

lemma wf_tree_strip: "wf_tree t \<Longrightarrow> wf_tree (strip_reserved t)"
proof (induction t rule: strip_reserved.induct)
  case (1 xs)
  then show ?case by (simp add: list_all_iff)
next
  case (2 kvs)
  let ?keep = "filter (\<lambda>p. fst p \<noteq> ''$'' \<and> fst p \<noteq> ''type'') kvs"
  let ?out = "map (\<lambda>p. (fst p, strip_reserved (snd p))) ?keep"
  from "2.prems" have oo: "own_order kvs" and np: "''__proto__'' \<notin> fst ` set kvs"
    and sub: "\<forall>p \<in> set kvs. wf_tree (snd p)"
    by (simp_all add: list_all_iff)
  have "own_order ?out" using oo by (rule own_order_strip)
  moreover have "''__proto__'' \<notin> fst ` set ?out"
    using np keys_strip [of strip_reserved _ kvs] by blast
  moreover have "\<And>p. p \<in> set ?keep \<Longrightarrow> wf_tree (strip_reserved (snd p))"
    using "2.IH" sub by simp
  then have "list_all (\<lambda>p. wf_tree (snd p)) ?out"
    by (simp add: list_all_iff)
  ultimately show ?case by (simp del: set_map set_filter)
qed simp_all

text \<open>
  Claim C2. On a well-formed tree \<open>removeMetaKeys\<close> is the removal of the keys
  \<^verbatim>\<open>$\<close> and \<^verbatim>\<open>type\<close> at every depth, array elements included: every other entry
  stays, in its place, with its value transformed in the same way; neither key occurs in
  the result; the result is well-formed; a tree with neither key is returned as it is.
  The function is total and has no error case, and it builds its result from fresh
  records and arrays, leaving its argument alone.
\<close>

theorem C2_removeMetaKeys:
  "wf_tree t \<Longrightarrow>
     removeMetaKeys t = strip_reserved t
   \<and> \<not> key_occurs ''$'' (removeMetaKeys t)
   \<and> \<not> key_occurs ''type'' (removeMetaKeys t)
   \<and> wf_tree (removeMetaKeys t)
   \<and> (\<not> key_occurs ''$'' t \<and> \<not> key_occurs ''type'' t \<longrightarrow> removeMetaKeys t = t)"
  by (simp add: removeMetaKeys_strip strip_reserved_no_key strip_reserved_noop wf_tree_strip)

text \<open>The record of the test suite, with both keys at the root and inside an array.\<close>

theorem C2_removeMetaKeys_witness:
  "wf_tree meta_example
   \<and> removeMetaKeys meta_example =
       JObj [(''fullName'', JStr ''Admin''),
             (''custom'', JBool False),
             (''userPermissions'',
                JArr [JObj [(''enabled'', JBool True), (''name'', JStr ''ViewSetup'')],
                      JObj [(''enabled'', JBool False), (''name'', JStr ''ModifyAllData'')]])]
   \<and> \<not> key_occurs ''$'' (removeMetaKeys meta_example)
   \<and> \<not> key_occurs ''type'' (removeMetaKeys meta_example)"
proof -
  have w: "wf_tree meta_example"
    by (simp add: meta_example_def own_order_def key_before_def array_index_def is_digit_def)
  have "strip_reserved meta_example =
       JObj [(''fullName'', JStr ''Admin''),
             (''custom'', JBool False),
             (''userPermissions'',
                JArr [JObj [(''enabled'', JBool True), (''name'', JStr ''ViewSetup'')],
                      JObj [(''enabled'', JBool False), (''name'', JStr ''ModifyAllData'')]])]"
    by (simp add: meta_example_def)
  with w C2_removeMetaKeys [OF w] show ?thesis by simp
qed

section \<open>The canonical document\<close>

lemma js_copy_Nil [simp]: "js_copy acc [] = acc"
  by (simp add: js_copy_def)

lemma js_copy_Cons [simp]: "js_copy acc (p # xs) = js_copy (js_define acc (fst p) (snd p)) xs"
  by (simp add: js_copy_def)

lemma js_copy_append:
  assumes "distinct (map fst acc @ map fst xs)"
    and "\<forall>p \<in> set acc. \<forall>q \<in> set xs. key_before (fst p) (fst q)"
    and "sorted_wrt key_before (map fst xs)"
  shows "js_copy acc xs = acc @ xs"
  using assms
proof (induction xs arbitrary: acc)
  case Nil
  show ?case by simp
next
  case (Cons x xs)
  have "js_define acc (fst x) (snd x) = acc @ [x]"
    using Cons.prems by (subst js_define_append) auto
  moreover have "js_copy (acc @ [x]) xs = (acc @ [x]) @ xs"
    using Cons.prems by (intro Cons.IH) auto
  ultimately show ?case by simp
qed

lemma insert_index_before:
  assumes "\<forall>p \<in> set I. \<exists>m. array_index (fst p) = Some m \<and> m < n"
    and "array_index (fst q) = None"
  shows "insert_index n e (I @ q # rest) = I @ e # q # rest"
  using assms by (induction I) auto

lemma js_copy_after_attribute:
  assumes "array_index a = None"
    and "distinct (map fst I @ map fst N @ map fst xs)"
    and "a \<notin> fst ` (set I \<union> set N \<union> set xs)"
    and "\<forall>p \<in> set I. is_index p"
    and "\<forall>p \<in> set N. \<not> is_index p"
    and "\<forall>p \<in> set I \<union> set N. \<forall>q \<in> set xs. key_before (fst p) (fst q)"
    and "sorted_wrt key_before (map fst xs)"
  shows "js_copy (I @ (a, v) # N) xs =
           (I @ filter is_index xs) @ (a, v) # (N @ filter (\<lambda>p. \<not> is_index p) xs)"
  using assms(2-)
proof (induction xs arbitrary: I N)
  case Nil
  show ?case by simp
next
  case (Cons x xs)
  obtain k w where x: "x = (k, w)" by (cases x)
  have fresh: "k \<notin> fst ` set (I @ (a, v) # N)"
    using Cons.prems(1,2) x by auto
  show ?case
  proof (cases "array_index k")
    case None
    then have nx: "\<not> is_index x" by (simp add: is_index_def x)
    have "js_define (I @ (a, v) # N) k w = I @ (a, v) # (N @ [x])"
      using fresh None by (simp add: js_define_def x)
    moreover have "js_copy (I @ (a, v) # (N @ [x])) xs =
        (I @ filter is_index xs) @ (a, v) # ((N @ [x]) @ filter (\<lambda>p. \<not> is_index p) xs)"
      using Cons.prems nx by (intro Cons.IH) auto
    ultimately show ?thesis using nx x by simp
  next
    case (Some n)
    then have ix: "is_index x" by (simp add: is_index_def x)
    have "\<forall>p \<in> set I. key_before (fst p) k" using Cons.prems(5) x by auto
    with Some have low: "\<forall>p \<in> set I. \<exists>m. array_index (fst p) = Some m \<and> m < n"
      by (blast dest: key_before_index)
    have "insert_index n (k, w) (I @ (a, v) # N) = I @ (k, w) # (a, v) # N"
      using low assms(1) by (intro insert_index_before) simp_all
    then have "js_define (I @ (a, v) # N) k w = (I @ [x]) @ (a, v) # N"
      using fresh Some by (simp add: js_define_def x)
    moreover have "js_copy ((I @ [x]) @ (a, v) # N) xs =
        ((I @ [x]) @ filter is_index xs) @ (a, v) # (N @ filter (\<lambda>p. \<not> is_index p) xs)"
      using Cons.prems ix by (intro Cons.IH) auto
    ultimately show ?thesis using ix x by simp
  qed
qed

lemma index_not_attribute: "is_index p \<Longrightarrow> \<not> is_attribute (fst p)"
proof
  assume "is_index p" and "is_attribute (fst p)"
  from \<open>is_attribute (fst p)\<close> obtain r where "fst p = CHR ''@'' # r"
    by (cases "fst p") (auto simp: is_attribute_def)
  with \<open>is_index p\<close> show False
    by (simp add: is_index_def array_index_def is_digit_def split: if_splits)
qed

lemma own_order_filter: "own_order xs \<Longrightarrow> own_order (filter P xs)"
  by (simp add: own_order_def distinct_map_filter sorted_wrt_filter_keys)

lemma xmlns_no_index: "array_index ''@_xmlns'' = None"
  by (simp add: array_index_def is_digit_def)

lemma wrapped_record:
  assumes "wf_tree (JObj kvs)" and "''@_xmlns'' \<notin> fst ` set kvs"
  shows "buildProfileXml_wrapped (JObj kvs) =
           JObj [(''Profile'',
                  JObj (filter is_index (body_entries (JObj kvs))
                        @ (''@_xmlns'', JStr PROFILE_XMLNS)
                        # filter (\<lambda>p. \<not> is_index p) (body_entries (JObj kvs))))]"
proof -
  let ?C = "js_entries (strip_reserved (JObj kvs))"
  let ?R = "body_entries (JObj kvs)"
  have cleaned: "removeMetaKeys (JObj kvs) = strip_reserved (JObj kvs)"
    using assms(1) by (rule removeMetaKeys_strip)
  have "wf_tree (strip_reserved (JObj kvs))" using assms(1) by (rule wf_tree_strip)
  then have "own_order ?C" by simp
  then have oR: "own_order ?R" unfolding body_entries_def by (rule own_order_filter)
  have keys: "fst ` set ?R \<subseteq> fst ` set kvs"
    unfolding body_entries_def by (simp del: removeMetaKeys.simps) force
  have rest: "js_copy [] ?R = ?R"
    using oR by (subst js_copy_append) (simp_all add: own_order_def)
  have "js_copy ([] @ (''@_xmlns'', JStr PROFILE_XMLNS) # []) ?R =
          ([] @ filter is_index ?R) @ (''@_xmlns'', JStr PROFILE_XMLNS)
            # ([] @ filter (\<lambda>p. \<not> is_index p) ?R)"
    using oR keys assms(2)
    by (intro js_copy_after_attribute xmlns_no_index) (auto simp: own_order_def)
  then have spread: "js_copy [(''@_xmlns'', JStr PROFILE_XMLNS)] ?R =
          filter is_index ?R @ (''@_xmlns'', JStr PROFILE_XMLNS) # filter (\<lambda>p. \<not> is_index p) ?R"
    by simp
  have "buildProfileXml_wrapped (JObj kvs) =
          JObj [(''Profile'', JObj (js_copy [(''@_xmlns'', JStr PROFILE_XMLNS)] (js_copy [] ?R)))]"
    unfolding buildProfileXml_wrapped_def Let_def cleaned body_entries_def ..
  with rest spread show ?thesis by simp
qed

text \<open>
  Claim C4, amended. For a well-formed raw record that has no field named \<^verbatim>\<open>@_xmlns\<close>
  of its own, the text produced by \<open>buildProfileXml\<close> starts with the XML declaration
  and is the declaration followed by the rendering of a tree with the single root
  \<^verbatim>\<open>Profile\<close>. The root's entries are those of the normalized record without its
  top-level \<^verbatim>\<open>fullName\<close>, with the fixed namespace attribute placed before every entry
  that is not an array index; it is the first attribute of the root, and no entry of the
  root is named \<^verbatim>\<open>fullName\<close>. Fields named \<^verbatim>\<open>fullName\<close> below the root are kept.
\<close>

theorem C4_document_shape:
  assumes "wf_tree (JObj kvs)" and "''@_xmlns'' \<notin> fst ` set kvs"
  shows \<open>prefix ''<?xml version="1.0" encoding="UTF-8"?>'' (buildProfileXml build (JObj kvs))
    \<and> (\<exists>body more.
          buildProfileXml build (JObj kvs) = XML_DECLARATION @ build (JObj [(''Profile'', JObj body)])
        \<and> body = filter is_index (body_entries (JObj kvs))
                   @ (''@_xmlns'', JStr PROFILE_XMLNS)
                   # filter (\<lambda>p. \<not> is_index p) (body_entries (JObj kvs))
        \<and> filter (\<lambda>p. is_attribute (fst p)) body = (''@_xmlns'', JStr PROFILE_XMLNS) # more
        \<and> ''fullName'' \<notin> fst ` set body)\<close>
proof -
  let ?R = "body_entries (JObj kvs)"
  let ?body = "filter is_index ?R @ (''@_xmlns'', JStr PROFILE_XMLNS)
                 # filter (\<lambda>p. \<not> is_index p) ?R"
  have doc: "buildProfileXml build (JObj kvs) =
               XML_DECLARATION @ build (JObj [(''Profile'', JObj ?body)])"
    using wrapped_record [OF assms] by (simp add: buildProfileXml_def)
  have pre: \<open>prefix ''<?xml version="1.0" encoding="UTF-8"?>'' (buildProfileXml build (JObj kvs))\<close>
    by (simp add: buildProfileXml_def XML_DECLARATION_def)
  have "filter (\<lambda>p. is_attribute (fst p)) (filter is_index ?R) = []"
    by (auto simp: filter_empty_conv dest: index_not_attribute)
  moreover have "is_attribute ''@_xmlns''" by (simp add: is_attribute_def)
  ultimately have attr: "filter (\<lambda>p. is_attribute (fst p)) ?body =
      (''@_xmlns'', JStr PROFILE_XMLNS)
        # filter (\<lambda>p. is_attribute (fst p)) (filter (\<lambda>p. \<not> is_index p) ?R)"
    by simp
  have "''fullName'' \<notin> fst ` set ?R" by (auto simp: body_entries_def)
  then have nofn: "''fullName'' \<notin> fst ` set ?body" by auto
  from pre doc attr nofn show ?thesis by blast
qed

text \<open>The record \<^verbatim>\<open>{fullName: "Admin", custom: false}\<close>.\<close>

theorem C4_document_shape_witness:
  "wf_tree admin_record
   \<and> buildProfileXml (\<lambda>v. ''<Profile/>'') admin_record = XML_DECLARATION @ ''<Profile/>''
   \<and> buildProfileXml_wrapped admin_record =
       JObj [(''Profile'', JObj [(''@_xmlns'', JStr PROFILE_XMLNS), (''custom'', JBool False)])]"
proof -
  have w: "wf_tree (JObj [(''fullName'', JStr ''Admin''), (''custom'', JBool False)])"
    by (simp add: own_order_def key_before_def array_index_def is_digit_def)
  have n: "''@_xmlns'' \<notin> fst ` set [(''fullName'', JStr ''Admin''), (''custom'', JBool False)]"
    by simp
  have b: "body_entries (JObj [(''fullName'', JStr ''Admin''), (''custom'', JBool False)])
             = [(''custom'', JBool False)]"
    by (simp add: body_entries_def)
  have i: "\<not> is_index (''custom'', JBool False)"
    by (simp add: is_index_def array_index_def is_digit_def)
  from C4_document_shape [OF w n, of "\<lambda>v. ''<Profile/>''"] w b i
  show ?thesis
    by (simp add: admin_record_def buildProfileXml_def
          wrapped_record [OF w n])
qed

text \<open>
  The claim as first stated, with no \<^verbatim>\<open>fullName\<close> at any depth, fails on a record
  with a nested field of that name: only the root's own \<^verbatim>\<open>fullName\<close> is taken out.
\<close>

theorem C4_nested_fullName_counterexample:
  "buildProfileXml_wrapped nested_example =
     JObj [(''Profile'',
            JObj [(''@_xmlns'', JStr PROFILE_XMLNS),
                  (''custom'', JBool False),
                  (''layoutAssignments'',
                     JObj [(''layout'', JStr ''Account-Account Layout''),
                           (''fullName'', JStr ''Account'')])])]
   \<and> key_occurs ''fullName'' (buildProfileXml_wrapped nested_example)"
  by (simp add: nested_example_def buildProfileXml_wrapped_def js_put_def js_define_def
        array_index_def is_digit_def)

section \<open>The retrieval loop\<close>

lemma retrieveProfiles_items_eq:
  "retrieveProfiles_items build items results =
     results @ map (built build) (filter retained items)"
  by (induction items arbitrary: results) (simp_all add: retained_def built_def)

lemma retained_is_record: "retained item \<Longrightarrow> \<exists>kvs. item = JObj kvs"
  by (cases item) (simp_all add: retained_def)

lemma chunkArray_single:
  assumes "arr \<noteq> []" and "length arr \<le> 10"
  shows "chunkArray arr BATCH_SIZE = Some [arr]"
proof -
  have "chunkArray_loop arr 10 0 [] = chunkArray_loop arr 10 10 [arr]"
    using assms by (subst chunkArray_loop.simps) simp
  also have "\<dots> = Some [arr]"
    using assms by (subst chunkArray_loop.simps) simp
  finally show ?thesis by (simp add: chunkArray_def BATCH_SIZE_def)
qed

text \<open>
  Claim C8. The inner loop appends one built document for each retained entry of a
  chunk's answer, in order, and nothing for any other entry: \<^verbatim>\<open>null\<close>, \<^verbatim>\<open>undefined\<close>
  and records without a \<^verbatim>\<open>fullName\<close> are not retained. So an answer made of one
  \<^verbatim>\<open>null\<close> and one valid entry gives exactly one document, for the valid entry.
\<close>

theorem C8_skips_invalid_entries:
  "retrieveProfiles_items build items results =
       results @ map (built build) (filter retained items)
   \<and> \<not> retained JNull \<and> \<not> retained JUndefined
   \<and> (map_of kvs ''fullName'' = None \<longrightarrow> \<not> retained (JObj kvs))
   \<and> (read ''Profile'' batch conn = (Inr raw, conn') \<longrightarrow>
        retrieveProfiles_batches build read (batch # batches) results conn =
        retrieveProfiles_batches build read batches
          (results @ map (built build) (filter retained (array_or_single raw))) conn')
   \<and> (retained valid \<and> profileNames \<noteq> [] \<and> length profileNames \<le> 10
        \<and> read ''Profile'' profileNames conn = (Inr (JArr [JNull, valid]), conn') \<longrightarrow>
        retrieveProfiles build read conn profileNames = Some (Inr [built build valid], conn'))"
  by (simp add: retrieveProfiles_items_eq retained_def retrieveProfiles_def chunkArray_single)

text \<open>The case of the test suite: a \<^verbatim>\<open>null\<close> and the Admin record.\<close>

theorem C8_skips_invalid_entries_witness:
  "retained admin_record
   \<and> retrieveProfiles (\<lambda>v. ''<Profile/>'') (\<lambda>t ids c. (Inr (JArr [JNull, admin_record]), c)) ()
       [''Admin'', ''Bad'']
     = Some (Inr [\<lparr>fullName = JStr ''Admin'', xml = XML_DECLARATION @ ''<Profile/>''\<rparr>], ())"
  using C8_skips_invalid_entries [of "\<lambda>v. ''<Profile/>''" "[]" "[]" "[]"
      "\<lambda>t ids c. (Inr (JArr [JNull, admin_record]), c)" "[''Admin'', ''Bad'']" "()"
      "JArr [JNull, admin_record]" "()" "[]" admin_record "[''Admin'', ''Bad'']"]
  by (simp add: retained_def admin_record_def built_def buildProfileXml_def)

lemma array_or_single_as_array: "array_or_single (as_array raw) = array_or_single raw"
  by (cases raw) (simp_all add: as_array_def)

lemma batches_as_array:
  "retrieveProfiles_batches build
     (\<lambda>t ids c. case read t ids c of
                   (Inr raw, c') \<Rightarrow> (Inr (as_array raw), c')
                 | (Inl e, c') \<Rightarrow> (Inl e, c')) batches results conn
   = retrieveProfiles_batches build read batches results conn"
proof (induction batches arbitrary: results conn)
  case Nil
  show ?case by simp
next
  case (Cons batch batches)
  obtain r conn1 where rd: "read ''Profile'' batch conn = (r, conn1)"
    by (cases "read ''Profile'' batch conn")
  show ?case
  proof (cases r)
    case (Inl e)
    with rd show ?thesis by simp
  next
    case (Inr raw)
    with rd Cons.IH show ?thesis by (simp add: array_or_single_as_array)
  qed
qed

text \<open>
  Claim C9. Replacing every answer of the remote by its list shape (a bare record \<open>r\<close>
  by the one-element list of \<open>r\<close>, a list by itself) changes nothing in what
  \<open>retrieveProfiles\<close> returns.
\<close>

theorem C9_singleton_as_list:
  "((\<forall>xs. r \<noteq> JArr xs) \<longrightarrow> as_array r = JArr [r])
   \<and> as_array (JArr xs) = JArr xs
   \<and> retrieveProfiles build
        (\<lambda>t ids c. case read t ids c of
                      (Inr raw, c') \<Rightarrow> (Inr (as_array raw), c')
                    | (Inl e, c') \<Rightarrow> (Inl e, c')) conn profileNames
      = retrieveProfiles build read conn profileNames"
proof -
  have "(\<forall>xs. r \<noteq> JArr xs) \<longrightarrow> as_array r = JArr [r]"
    by (cases r) (simp_all add: as_array_def)
  moreover have "as_array (JArr xs) = JArr xs" by (simp add: as_array_def)
  ultimately show ?thesis
    by (simp add: retrieveProfiles_def batches_as_array split: option.splits)
qed

text \<open>The bare Admin record and the list holding it give the same single document.\<close>

theorem C9_singleton_as_list_witness:
  "as_array admin_record = JArr [admin_record]
   \<and> retrieveProfiles (\<lambda>v. ''<Profile/>'') (\<lambda>t ids c. (Inr (JArr [admin_record]), c)) () [''Admin'']
     = retrieveProfiles (\<lambda>v. ''<Profile/>'') (\<lambda>t ids c. (Inr admin_record, c)) () [''Admin'']
   \<and> retrieveProfiles (\<lambda>v. ''<Profile/>'') (\<lambda>t ids c. (Inr admin_record, c)) () [''Admin'']
     = Some (Inr [\<lparr>fullName = JStr ''Admin'', xml = XML_DECLARATION @ ''<Profile/>''\<rparr>], ())"
proof -
  have a: "as_array admin_record = JArr [admin_record]"
    by (simp add: as_array_def admin_record_def)
  have "retrieveProfiles (\<lambda>v. ''<Profile/>'') (\<lambda>t ids c. (Inr admin_record, c)) () [''Admin'']
     = Some (Inr [\<lparr>fullName = JStr ''Admin'', xml = XML_DECLARATION @ ''<Profile/>''\<rparr>], ())"
    by (simp add: retrieveProfiles_def chunkArray_single admin_record_def buildProfileXml_def)
  with a C9_singleton_as_list [of admin_record "[]" "\<lambda>v. ''<Profile/>''"
      "\<lambda>t ids c. (Inr admin_record, c)" "()" "[''Admin'']"]
  show ?thesis by simp
qed

lemma items_invariant:
  assumes "\<And>item. retained item \<Longrightarrow> Q (built build item)"
    and "\<forall>p \<in> set results. Q p"
  shows "\<forall>p \<in> set (retrieveProfiles_items build items results). Q p"
  using assms by (auto simp: retrieveProfiles_items_eq)

lemma batches_invariant:
  assumes "\<And>item. retained item \<Longrightarrow> Q (built build item)"
  shows "retrieveProfiles_batches build read batches results conn = (Inr res, conn') \<Longrightarrow>
         \<forall>p \<in> set results. Q p \<Longrightarrow> \<forall>p \<in> set res. Q p"
proof (induction batches arbitrary: results conn)
  case Nil
  then show ?case by simp
next
  case (Cons batch batches)
  obtain r conn1 where rd: "read ''Profile'' batch conn = (r, conn1)"
    by (cases "read ''Profile'' batch conn")
  show ?case
  proof (cases r)
    case (Inl e)
    with rd Cons.prems show ?thesis by simp
  next
    case (Inr raw)
    with rd Cons.prems(1)
    have "retrieveProfiles_batches build read batches
            (retrieveProfiles_items build (array_or_single raw) results) conn1 = (Inr res, conn')"
      by simp
    moreover have "\<forall>p \<in> set (retrieveProfiles_items build (array_or_single raw) results). Q p"
      using assms Cons.prems(2) by (rule items_invariant)
    ultimately show ?thesis by (rule Cons.IH)
  qed
qed

lemma built_identified:
  assumes "retained item"
  shows "\<exists>kvs. built build item = built build (JObj kvs)
            \<and> map_of kvs ''fullName'' = Some (fullName (built build item))
            \<and> js_truthy (fullName (built build item))"
proof -
  from assms obtain kvs where item: "item = JObj kvs" by (blast dest: retained_is_record)
  with assms have "js_truthy (js_get (JObj kvs) ''fullName'')" by (simp add: retained_def)
  then obtain v where "map_of kvs ''fullName'' = Some v" "js_truthy v"
    by (cases "map_of kvs ''fullName''") simp_all
  with item show ?thesis by (intro exI[of _ kvs]) (simp add: built_def)
qed

text \<open>
  Claim C10. Every entry \<open>retrieveProfiles\<close> returns was built from a record whose
  \<^verbatim>\<open>fullName\<close> field is the entry's \<open>fullName\<close>, and that value is truthy: not the empty
  string, not \<^verbatim>\<open>null\<close>, not \<^verbatim>\<open>undefined\<close>. An entry whose \<^verbatim>\<open>fullName\<close> is the empty
  string is skipped as one without the field is.
\<close>

theorem C10_fullName_truthy:
  "(retrieveProfiles build read conn profileNames = Some (Inr res, conn') \<longrightarrow>
      (\<forall>p \<in> set res.
         js_truthy (fullName p) \<and> fullName p \<noteq> JStr [] \<and> fullName p \<noteq> JNull
         \<and> fullName p \<noteq> JUndefined
         \<and> (\<exists>kvs. p = built build (JObj kvs) \<and> map_of kvs ''fullName'' = Some (fullName p))))
   \<and> (js_get item ''fullName'' = JStr [] \<or> js_get item ''fullName'' = JUndefined \<longrightarrow>
        retrieveProfiles_items build (item # items) results =
        retrieveProfiles_items build items results)"
proof -
  let ?Q = "\<lambda>p. \<exists>kvs. p = built build (JObj kvs)
                 \<and> map_of kvs ''fullName'' = Some (fullName p) \<and> js_truthy (fullName p)"
  have step: "\<And>item. retained item \<Longrightarrow> ?Q (built build item)"
    by (rule built_identified)
  have "\<forall>p \<in> set res. ?Q p"
    if "retrieveProfiles build read conn profileNames = Some (Inr res, conn')"
  proof -
    from that obtain batches where
      bat: "retrieveProfiles_batches build read batches [] conn = (Inr res, conn')"
      by (auto simp: retrieveProfiles_def split: option.splits)
    have init: "\<forall>p \<in> set ([] :: RetrievedProfile list). ?Q p" by simp
    show ?thesis
      by (rule batches_invariant [where Q = ?Q, OF step bat init])
  qed
  moreover have "\<And>p. ?Q p \<Longrightarrow> fullName p \<noteq> JStr [] \<and> fullName p \<noteq> JNull \<and> fullName p \<noteq> JUndefined"
    by auto
  ultimately show ?thesis by auto
qed

text \<open>
  An answer with an empty name, the Admin record and a record without a name: only Admin
  is returned.
\<close>

theorem C10_fullName_truthy_witness:
  "retrieveProfiles (\<lambda>v. ''<Profile/>'')
      (\<lambda>t ids c. (Inr (JArr [JObj [(''fullName'', JStr [])], admin_record,
                              JObj [(''noName'', JBool True)]]), c)) () [''Admin'', ''Bad'']
     = Some (Inr [\<lparr>fullName = JStr ''Admin'', xml = XML_DECLARATION @ ''<Profile/>''\<rparr>], ())
   \<and> js_truthy (JStr ''Admin'')"
proof -
  have run: "retrieveProfiles (\<lambda>v. ''<Profile/>'')
      (\<lambda>t ids c. (Inr (JArr [JObj [(''fullName'', JStr [])], admin_record,
                              JObj [(''noName'', JBool True)]]), c)) () [''Admin'', ''Bad'']
     = Some (Inr [\<lparr>fullName = JStr ''Admin'', xml = XML_DECLARATION @ ''<Profile/>''\<rparr>], ())"
    by (simp add: retrieveProfiles_def chunkArray_single admin_record_def buildProfileXml_def)
  from C10_fullName_truthy [of "\<lambda>v. ''<Profile/>''"
      "\<lambda>t ids c. (Inr (JArr [JObj [(''fullName'', JStr [])], admin_record,
                              JObj [(''noName'', JBool True)]]), c)" "()" "[''Admin'', ''Bad'']"
      "[\<lparr>fullName = JStr ''Admin'', xml = XML_DECLARATION @ ''<Profile/>''\<rparr>]" "()"] run
  show ?thesis by simp
qed

section \<open>The cleaner\<close>

lemma cleanProfileXml_cases:
  "cleanProfileXml parse build x c =
     (case parse x of
        Inl e \<Rightarrow> Inl e
      | Inr parsed \<Rightarrow>
          if js_truthy (parsed_profile parsed)
          then Inr (XML_DECLARATION @
                    build (JObj [(''Profile'', cleanProfileXml_delete c (parsed_profile parsed))]))
          else Inr x)"
  by (simp add: cleanProfileXml_def parsed_profile_def XML_DECLARATION_def Let_def
        split: sum.splits)

lemma delete_record:
  "cleanProfileXml_delete c (JObj kvs) =
     JObj (filter (\<lambda>p. \<not> (removeLoginIpRanges c \<and> fst p = ''loginIpRanges'')
                      \<and> \<not> (removeUserLicense c \<and> fst p = ''userLicense'')
                      \<and> \<not> (removeLoginHours c \<and> fst p = ''loginHours'')) kvs)"
  by (cases "removeLoginIpRanges c"; cases "removeUserLicense c"; cases "removeLoginHours c")
     (simp_all add: cleanProfileXml_delete_def conj_commute conj_left_commute)

lemma delete_other:
  "\<forall>kvs. v \<noteq> JObj kvs \<Longrightarrow> cleanProfileXml_delete c v = v"
  by (cases v) (simp_all add: cleanProfileXml_delete_def Let_def)

lemma delete_idem:
  "cleanProfileXml_delete c (cleanProfileXml_delete c v) = cleanProfileXml_delete c v"
proof (cases "\<exists>kvs. v = JObj kvs")
  case True
  then obtain kvs where "v = JObj kvs" by blast
  then show ?thesis by (simp add: delete_record)
next
  case False
  then show ?thesis by (simp add: delete_other)
qed

text \<open>
  Claim C7. When the parser returns a tree in which \<^verbatim>\<open>Profile\<close> is absent (or falsy),
  \<open>cleanProfileXml\<close> returns its input text unchanged, whatever the options; this is
  a normal return, not an error.
\<close>

theorem C7_no_profile_root:
  "parse x = Inr parsed \<Longrightarrow> \<not> js_truthy (js_get (JObj parsed) ''Profile'') \<Longrightarrow>
   cleanProfileXml parse build x c = Inr x"
  by (simp add: cleanProfileXml_cases parsed_profile_def)

text \<open>The document of the test suite, \<^verbatim>\<open><Something>test</Something>\<close>.\<close>

theorem C7_no_profile_root_witness:
  "sample_parse ''<Something>test</Something>'' = Inr [(''Something'', JStr ''test'')]
   \<and> \<not> js_truthy (js_get (JObj [(''Something'', JStr ''test'')]) ''Profile'')
   \<and> cleanProfileXml sample_parse sample_build ''<Something>test</Something>''
        DEFAULT_CLEAN_OPTIONS = Inr ''<Something>test</Something>''"
proof -
  have p: "sample_parse ''<Something>test</Something>'' = Inr [(''Something'', JStr ''test'')]"
    by (simp add: sample_parse_def XML_DECLARATION_def)
  have f: "\<not> js_truthy (js_get (JObj [(''Something'', JStr ''test'')]) ''Profile'')"
    by simp
  from C7_no_profile_root [of sample_parse "''<Something>test</Something>''"
         "[(''Something'', JStr ''test'')]" sample_build DEFAULT_CLEAN_OPTIONS] p f
  show ?thesis by simp
qed

text \<open>
  Claim C6. When the parsed root is a record, cleaning with the default options hands to
  the builder that record without its entries \<^verbatim>\<open>loginIpRanges\<close>, \<^verbatim>\<open>userLicense\<close> and
  \<^verbatim>\<open>loginHours\<close>: every other entry of the root is there, in its place, with the very
  value the parser gave it. Nothing below the root is looked at or changed.
\<close>

theorem C6_default_clean_frame:
  "parse x = Inr parsed \<Longrightarrow> map_of parsed ''Profile'' = Some (JObj kvs) \<Longrightarrow>
   cleanProfileXml parse build x DEFAULT_CLEAN_OPTIONS =
     Inr (XML_DECLARATION @
          build (JObj [(''Profile'',
                        JObj (filter (\<lambda>p. fst p \<noteq> ''loginIpRanges'' \<and> fst p \<noteq> ''userLicense''
                                         \<and> fst p \<noteq> ''loginHours'') kvs))]))"
  by (simp add: cleanProfileXml_cases parsed_profile_def delete_record DEFAULT_CLEAN_OPTIONS_def)

text \<open>
  The sample profile loses its three non-portable entries and keeps \<^verbatim>\<open>custom\<close>,
  \<^verbatim>\<open>fieldPermissions\<close> and the namespace attribute.
\<close>

theorem C6_default_clean_frame_witness:
  "cleanProfileXml sample_parse sample_build ''raw'' DEFAULT_CLEAN_OPTIONS
     = Inr (XML_DECLARATION @ ''cleaned'')
   \<and> sample_build (JObj [(''Profile'', JObj sample_cleaned)]) = ''cleaned''"
proof -
  have p: "sample_parse ''raw'' = Inr [(''?xml'', JObj []), (''Profile'', JObj sample_profile)]"
    by (simp add: sample_parse_def)
  have m: "map_of [(''?xml'', JObj []), (''Profile'', JObj sample_profile)] ''Profile''
             = Some (JObj sample_profile)"
    by simp
  have f: "filter (\<lambda>p. fst p \<noteq> ''loginIpRanges'' \<and> fst p \<noteq> ''userLicense''
                        \<and> fst p \<noteq> ''loginHours'') sample_profile = sample_cleaned"
    by (simp add: sample_profile_def sample_cleaned_def)
  from C6_default_clean_frame [of sample_parse "''raw''"
         "[(''?xml'', JObj []), (''Profile'', JObj sample_profile)]" sample_profile sample_build]
       p m f
  show ?thesis by (simp add: sample_build_def)
qed

text \<open>
  Claim C5. Cleaning is idempotent: when cleaning \<open>x\<close> returns \<open>y\<close>, cleaning \<open>y\<close> with
  the same options returns \<open>y\<close> again, provided the library reads the cleaned document
  back as the tree it was built from (\<open>reads_back\<close>). An input that is passed through
  unchanged needs no such proviso.
\<close>

theorem C5_idempotent:
  assumes "cleanProfileXml parse build x c = Inr y"
    and "\<forall>parsed. parse x = Inr parsed \<and> js_truthy (parsed_profile parsed) \<longrightarrow>
           reads_back parse build (cleanProfileXml_delete c (parsed_profile parsed))"
  shows "cleanProfileXml parse build y c = Inr y"
proof -
  from assms(1) obtain parsed where px: "parse x = Inr parsed"
    by (auto simp: cleanProfileXml_cases split: sum.splits)
  show ?thesis
  proof (cases "js_truthy (parsed_profile parsed)")
    case False
    with px assms(1) have "y = x" by (simp add: cleanProfileXml_cases)
    with assms(1) show ?thesis by simp
  next
    case True
    let ?p = "cleanProfileXml_delete c (parsed_profile parsed)"
    from True px assms(1)
    have y: "y = XML_DECLARATION @ build (JObj [(''Profile'', ?p)])"
      by (simp add: cleanProfileXml_cases)
    from True px assms(2) have "reads_back parse build ?p" by blast
    then obtain parsed' where py: "parse y = Inr parsed'" and rt: "parsed_profile parsed' = ?p"
      by (auto simp: reads_back_def parsed_profile_def y split: sum.splits)
    show ?thesis
    proof (cases "js_truthy ?p")
      case False
      with py rt show ?thesis by (simp add: cleanProfileXml_cases)
    next
      case True
      with py rt show ?thesis by (simp add: cleanProfileXml_cases delete_idem y)
    qed
  qed
qed

text \<open>The sample profile, cleaned once and then once more.\<close>

theorem C5_idempotent_witness:
  "cleanProfileXml sample_parse sample_build ''raw'' DEFAULT_CLEAN_OPTIONS
     = Inr (XML_DECLARATION @ ''cleaned'')
   \<and> reads_back sample_parse sample_build (JObj sample_cleaned)
   \<and> cleanProfileXml sample_parse sample_build (XML_DECLARATION @ ''cleaned'') DEFAULT_CLEAN_OPTIONS
     = Inr (XML_DECLARATION @ ''cleaned'')"
proof -
  have p: "sample_parse ''raw'' = Inr [(''?xml'', JObj []), (''Profile'', JObj sample_profile)]"
    by (simp add: sample_parse_def)
  have d: "cleanProfileXml_delete DEFAULT_CLEAN_OPTIONS (JObj sample_profile) = JObj sample_cleaned"
    by (simp add: delete_record DEFAULT_CLEAN_OPTIONS_def sample_profile_def sample_cleaned_def)
  have first: "cleanProfileXml sample_parse sample_build ''raw'' DEFAULT_CLEAN_OPTIONS
     = Inr (XML_DECLARATION @ ''cleaned'')"
    using p d by (simp add: cleanProfileXml_cases parsed_profile_def sample_build_def)
  have rb: "reads_back sample_parse sample_build (JObj sample_cleaned)"
    by (simp add: reads_back_def sample_build_def sample_parse_def XML_DECLARATION_def)
  have hyp: "\<forall>parsed. sample_parse ''raw'' = Inr parsed \<and> js_truthy (parsed_profile parsed) \<longrightarrow>
           reads_back sample_parse sample_build
             (cleanProfileXml_delete DEFAULT_CLEAN_OPTIONS (parsed_profile parsed))"
    using p d rb by (simp add: parsed_profile_def)
  from C5_idempotent [of sample_parse sample_build "''raw''" DEFAULT_CLEAN_OPTIONS
         "XML_DECLARATION @ ''cleaned''"] first hyp rb
  show ?thesis by simp
qed

section \<open>Outcomes of the command\<close>

lemma run_process_step:
  "\<exists>out fs1. name out = fullName profile \<and> outcome_shape out
     \<and> (\<forall>results. run_process parse build to_string mkdirSync writeFileSync path_join
                      shouldClean outputDir (profile # rest) results fs
                  = run_process parse build to_string mkdirSync writeFileSync path_join
                      shouldClean outputDir rest (results @ [out]) fs1)"
proof (cases "if shouldClean then cleanProfileXml parse build (xml profile) DEFAULT_CLEAN_OPTIONS
              else Inr (xml profile)")
  case (Inl errMsg)
  then show ?thesis
    by (intro exI[of _ "\<lparr>name = fullName profile, success = False,
                          filePath = None, error = Some errMsg\<rparr>"] exI[of _ fs])
       (simp add: outcome_shape_def)
next
  case (Inr x)
  obtain w fs1 where wr: "writeProfileToSourceFormat to_string mkdirSync writeFileSync path_join
                            (fullName profile) x outputDir fs = (w, fs1)"
    by (cases "writeProfileToSourceFormat to_string mkdirSync writeFileSync path_join
                 (fullName profile) x outputDir fs")
  show ?thesis
  proof (cases w)
    case (Inl errMsg)
    with Inr wr show ?thesis
      by (intro exI[of _ "\<lparr>name = fullName profile, success = False,
                            filePath = None, error = Some errMsg\<rparr>"] exI[of _ fs1])
         (simp add: outcome_shape_def)
  next
    case (Inr path)
    with \<open>(if shouldClean then cleanProfileXml parse build (xml profile) DEFAULT_CLEAN_OPTIONS
            else Inr (xml profile)) = Inr x\<close> wr show ?thesis
      by (intro exI[of _ "\<lparr>name = fullName profile, success = True,
                            filePath = Some path, error = None\<rparr>"] exI[of _ fs1])
         (simp add: outcome_shape_def)
  qed
qed

lemma run_process_outcomes:
  "\<exists>outs. map name outs = map fullName retrieved \<and> (\<forall>r \<in> set outs. outcome_shape r)
     \<and> fst (run_process parse build to_string mkdirSync writeFileSync path_join
               shouldClean outputDir retrieved results fs) = results @ outs"
proof (induction retrieved arbitrary: results fs)
  case Nil
  show ?case by simp
next
  case (Cons profile rest)
  from run_process_step [of profile parse build to_string mkdirSync writeFileSync path_join
         shouldClean outputDir rest fs]
  obtain out fs1 where out: "name out = fullName profile" "outcome_shape out"
    and step: "run_process parse build to_string mkdirSync writeFileSync path_join
                 shouldClean outputDir (profile # rest) results fs
               = run_process parse build to_string mkdirSync writeFileSync path_join
                   shouldClean outputDir rest (results @ [out]) fs1"
    by blast
  from Cons.IH [of "results @ [out]" fs1]
  obtain outs where outs: "map name outs = map fullName rest" "\<forall>r \<in> set outs. outcome_shape r"
    and run: "fst (run_process parse build to_string mkdirSync writeFileSync path_join
               shouldClean outputDir rest (results @ [out]) fs1) = (results @ [out]) @ outs"
    by blast
  show ?case
    using out outs run step by (intro exI[of _ "out # outs"]) simp
qed

lemma run_report_missing_eq:
  "run_report_missing retrievedNames ns results =
     results @ map not_found (filter (\<lambda>n. JStr n \<notin> set retrievedNames) ns)"
  by (induction ns arbitrary: results) (simp_all add: not_found_def)

lemma count_missing:
  "count_list (map JStr (filter (\<lambda>n. JStr n \<notin> S) ns)) v =
     (if v \<in> S then 0 else count_list (map JStr ns) v)"
  by (induction ns) auto

lemma outcome_names_rearranged:
  "mset (rn @ map JStr (filter (\<lambda>n. JStr n \<notin> set rn) ns)) = mset (map JStr ns)
   \<longleftrightarrow> (\<forall>v \<in> set rn. count_list rn v = count_list (map JStr ns) v)"
proof -
  have c: "\<And>v. count (mset (rn @ map JStr (filter (\<lambda>n. JStr n \<notin> set rn) ns))) v =
             (if v \<in> set rn then count_list rn v else count_list (map JStr ns) v)"
  proof -
    fix v
    have "count (mset (rn @ map JStr (filter (\<lambda>n. JStr n \<notin> set rn) ns))) v
            = count_list (rn @ map JStr (filter (\<lambda>n. JStr n \<notin> set rn) ns)) v"
      by (simp only: count_mset)
    also have "\<dots> = count_list rn v
                      + count_list (map JStr (filter (\<lambda>n. JStr n \<notin> set rn) ns)) v"
      by (induction rn) simp_all
    also have "\<dots> = (if v \<in> set rn then count_list rn v else count_list (map JStr ns) v)"
      by (simp only: count_missing) (simp add: count_list_0_iff)
    finally show "count (mset (rn @ map JStr (filter (\<lambda>n. JStr n \<notin> set rn) ns))) v =
             (if v \<in> set rn then count_list rn v else count_list (map JStr ns) v)" .
  qed
  show ?thesis
  proof
    assume eq: "mset (rn @ map JStr (filter (\<lambda>n. JStr n \<notin> set rn) ns)) = mset (map JStr ns)"
    show "\<forall>v \<in> set rn. count_list rn v = count_list (map JStr ns) v"
    proof
      fix v assume v: "v \<in> set rn"
      have "count_list rn v = count (mset (rn @ map JStr (filter (\<lambda>n. JStr n \<notin> set rn) ns))) v"
        using v by (simp only: c if_True)
      also have "\<dots> = count (mset (map JStr ns)) v" by (simp only: eq)
      also have "\<dots> = count_list (map JStr ns) v" by (simp only: count_mset)
      finally show "count_list rn v = count_list (map JStr ns) v" .
    qed
  next
    assume h: "\<forall>v \<in> set rn. count_list rn v = count_list (map JStr ns) v"
    show "mset (rn @ map JStr (filter (\<lambda>n. JStr n \<notin> set rn) ns)) = mset (map JStr ns)"
    proof (rule multiset_eqI)
      fix v
      have "count (mset (rn @ map JStr (filter (\<lambda>n. JStr n \<notin> set rn) ns))) v
              = count_list (map JStr ns) v"
        using h by (cases "v \<in> set rn") (simp_all only: c if_True if_False)
      also have "\<dots> = count (mset (map JStr ns)) v" by (simp only: count_mset)
      finally show "count (mset (rn @ map JStr (filter (\<lambda>n. JStr n \<notin> set rn) ns))) v
                      = count (mset (map JStr ns)) v" .
    qed
  qed
qed

text \<open>
  Claim C3, amended. When the command returns, its outcomes are, in order, one outcome for
  each retrieved profile, under that profile's name, followed by one "not found" failure
  for each requested name that is not among the retrieved names. Each outcome is a success
  with a file path or a failure with a reason, and every requested name has an outcome.
  The outcome names are a rearrangement of the requested sequence, one outcome for each
  request, exactly when every retrieved name was returned as often as it was requested.
\<close>

theorem C3_outcomes:
  assumes "run parse build to_string read mkdirSync writeFileSync path_join
             profileNames shouldClean outputDir conn fs = Some (Inr result, conn', fs')"
  shows "\<exists>retrieved.
       retrieveProfiles build read conn profileNames = Some (Inr retrieved, conn')
     \<and> map name (profiles result) =
         map fullName retrieved
         @ map JStr (filter (\<lambda>n. JStr n \<notin> set (map fullName retrieved)) profileNames)
     \<and> (\<forall>r \<in> set (profiles result). outcome_shape r)
     \<and> (\<forall>n \<in> set profileNames. \<exists>r \<in> set (profiles result). name r = JStr n)
     \<and> (\<forall>n \<in> set profileNames.
           JStr n \<notin> set (map fullName retrieved) \<longrightarrow> not_found n \<in> set (profiles result))
     \<and> (mset (map name (profiles result)) = mset (map JStr profileNames)
          \<longleftrightarrow> (\<forall>v \<in> set (map fullName retrieved).
                 count_list (map fullName retrieved) v = count_list (map JStr profileNames) v))
     \<and> totalRequested result = length profileNames
     \<and> totalSuccess result + totalFailed result = length (profiles result)"
proof -
  from assms obtain retrieved where
    ret: "retrieveProfiles build read conn profileNames = Some (Inr retrieved, conn')"
    by (auto simp: run_def Let_def split: option.splits sum.splits prod.splits)
  let ?P = "run_process parse build to_string mkdirSync writeFileSync path_join
              shouldClean outputDir retrieved [] fs"
  let ?missing = "filter (\<lambda>n. JStr n \<notin> set (map fullName retrieved)) profileNames"
  from run_process_outcomes [of retrieved parse build to_string mkdirSync writeFileSync
         path_join shouldClean outputDir "[]" fs]
  obtain outs where outs: "map name outs = map fullName retrieved"
    "\<forall>r \<in> set outs. outcome_shape r" and P: "fst ?P = outs"
    by auto
  have res: "result = \<lparr>profiles = outs @ map not_found ?missing,
                        totalRequested = length profileNames,
                        totalSuccess = length (filter success (outs @ map not_found ?missing)),
                        totalFailed = length (filter (\<lambda>r. \<not> success r)
                                                (outs @ map not_found ?missing))\<rparr>"
    using assms ret P
    by (cases ?P) (simp add: run_def run_report_missing_eq Let_def)
  have prof: "profiles result = outs @ map not_found ?missing"
    by (subst res) simp
  have names: "map name (profiles result) = map fullName retrieved @ map JStr ?missing"
    using outs(1) by (simp add: prof not_found_def comp_def)
  have shape: "\<forall>r \<in> set (profiles result). outcome_shape r"
    using outs(2) by (auto simp: prof not_found_def outcome_shape_def)
  have every: "\<forall>n \<in> set profileNames. \<exists>r \<in> set (profiles result). name r = JStr n"
  proof
    fix n assume n: "n \<in> set profileNames"
    have "JStr n \<in> set (map name (profiles result))"
      unfolding names using n by (cases "JStr n \<in> set (map fullName retrieved)") auto
    then show "\<exists>r \<in> set (profiles result). name r = JStr n" by auto
  qed
  have missing: "\<forall>n \<in> set profileNames.
           JStr n \<notin> set (map fullName retrieved) \<longrightarrow> not_found n \<in> set (profiles result)"
    by (auto simp: prof)
  have perm: "mset (map name (profiles result)) = mset (map JStr profileNames)
          \<longleftrightarrow> (\<forall>v \<in> set (map fullName retrieved).
                 count_list (map fullName retrieved) v = count_list (map JStr profileNames) v)"
    unfolding names by (rule outcome_names_rearranged)
  have tot: "totalRequested result = length profileNames" by (subst res) simp
  have "totalSuccess result + totalFailed result
          = length (filter success (profiles result))
            + length (filter (\<lambda>r. \<not> success r) (profiles result))"
    by (subst res, subst res, subst res, subst res) simp
  then have sum: "totalSuccess result + totalFailed result = length (profiles result)"
    by (simp add: sum_length_filter_compl)
  from ret names shape every missing perm tot sum show ?thesis by blast
qed

lemma run_example_abc:
  "run sample_parse plain_build no_text
      (constant_remote (JArr [record_named ''A'', record_named ''C'']))
      mkdir_ok write_ok slash_join [''A'', ''B'', ''C''] False ''out'' () []
   = Some (Inr \<lparr>profiles =
                   [\<lparr>name = JStr ''A'', success = True,
                      filePath = Some ''out/A.profile-meta.xml'', error = None\<rparr>,
                    \<lparr>name = JStr ''C'', success = True,
                      filePath = Some ''out/C.profile-meta.xml'', error = None\<rparr>,
                    not_found ''B''],
                 totalRequested = 3, totalSuccess = 2, totalFailed = 1\<rparr>,
           (), [''out/A.profile-meta.xml'', ''out/C.profile-meta.xml''])"
  by (simp add: run_def retrieveProfiles_def chunkArray_single constant_remote_def
        record_named_def writeProfileToSourceFormat_def mkdir_ok_def write_ok_def
        slash_join_def not_found_def Let_def)

text \<open>
  The request \<open>[A, B, C]\<close> answered with the records of \<open>A\<close> and \<open>C\<close>: a success for
  \<open>A\<close>, a success for \<open>C\<close> and a "not found" failure for \<open>B\<close>.
\<close>

theorem C3_outcomes_witness:
  "run sample_parse plain_build no_text
      (constant_remote (JArr [record_named ''A'', record_named ''C'']))
      mkdir_ok write_ok slash_join [''A'', ''B'', ''C''] False ''out'' () []
   = Some (Inr \<lparr>profiles =
                   [\<lparr>name = JStr ''A'', success = True,
                      filePath = Some ''out/A.profile-meta.xml'', error = None\<rparr>,
                    \<lparr>name = JStr ''C'', success = True,
                      filePath = Some ''out/C.profile-meta.xml'', error = None\<rparr>,
                    not_found ''B''],
                 totalRequested = 3, totalSuccess = 2, totalFailed = 1\<rparr>,
           (), [''out/A.profile-meta.xml'', ''out/C.profile-meta.xml''])
   \<and> mset [JStr ''A'', JStr ''C'', JStr ''B''] = mset (map JStr [''A'', ''B'', ''C''])"
  using C3_outcomes [OF run_example_abc] run_example_abc
  by simp

text \<open>
  Without these conditions the claim fails: when the remote answers the request for the
  one name \<open>Admin\<close> with that record twice, the command reports two outcomes for it.
\<close>

theorem C3_duplicate_answer_counterexample:
  "run sample_parse plain_build no_text
      (constant_remote (JArr [record_named ''Admin'', record_named ''Admin'']))
      mkdir_ok write_ok slash_join [''Admin''] False ''out'' () []
   = Some (Inr \<lparr>profiles =
                   [\<lparr>name = JStr ''Admin'', success = True,
                      filePath = Some ''out/Admin.profile-meta.xml'', error = None\<rparr>,
                    \<lparr>name = JStr ''Admin'', success = True,
                      filePath = Some ''out/Admin.profile-meta.xml'', error = None\<rparr>],
                 totalRequested = 1, totalSuccess = 2, totalFailed = 0\<rparr>,
           (), [''out/Admin.profile-meta.xml'', ''out/Admin.profile-meta.xml''])"
  by (simp add: run_def retrieveProfiles_def chunkArray_single constant_remote_def
        record_named_def writeProfileToSourceFormat_def mkdir_ok_def write_ok_def
        slash_join_def Let_def)

end
